theory Spec2Isabelle
  imports Main "HOL-Library.Log_Nat" "HOL-Library.Code_Target_Nat"
begin

section \<open>The observer pattern of \<open>src/index.ts\<close>\<close>

text \<open>
  The file declares two interfaces (\<open>Subject\<close>, \<open>Observer\<close>), one subject class
  (\<open>ConcreteSubject\<close>) and two observer classes (\<open>ConcreteObserverA\<close>,
  \<open>ConcreteObserverB\<close>). Objects are compared by identity (\<open>includes\<close>, \<open>indexOf\<close>), so
  an observer is modelled by its reference; what a reference points to is looked up in
  a class table.
\<close>

subsection \<open>Values, console output, completions\<close>

type_synonym ref = nat

text \<open>
  A console line is the sequence of pieces of the string or template literal that is
  logged: literal text, and the numbers substituted by \<open>${...}\<close>.
\<close>

datatype fragment = Str string | Num int

type_synonym line = "fragment list"

text \<open>A call either returns or throws (the thrown value is kept as a string).\<close>

datatype completion = Returned | Threw string

subsection \<open>Array operations used by the subject\<close>

text \<open>\<open>Array.prototype.includes\<close>, on references.\<close>

definition Array_includes :: "'a list \<Rightarrow> 'a \<Rightarrow> bool" where
  "Array_includes xs x = (x \<in> set xs)"

text \<open>\<open>Array.prototype.indexOf\<close>: the first index holding the element, \<open>-1\<close> if none.\<close>

fun Array_indexOf :: "'a list \<Rightarrow> 'a \<Rightarrow> int" where
  "Array_indexOf [] x = - 1"
| "Array_indexOf (y # ys) x =
     (if y = x then 0
      else (let i = Array_indexOf ys x in if i = - 1 then - 1 else i + 1))"

text \<open>
  \<open>Array.prototype.splice(start, deleteCount)\<close> without inserted items: a negative
  start counts from the end, both arguments are clamped to the array.
\<close>

definition Array_splice :: "'a list \<Rightarrow> int \<Rightarrow> int \<Rightarrow> 'a list" where
  "Array_splice xs start deleteCount =
     (let len = int (length xs);
          actualStart = (if start < 0 then max (len + start) 0 else min start len);
          actualDeleteCount = min (max deleteCount 0) (len - actualStart)
      in take (nat actualStart) xs @ drop (nat (actualStart + actualDeleteCount)) xs)"

text \<open>\<open>Array.prototype.push\<close> of one element.\<close>

definition Array_push :: "'a list \<Rightarrow> 'a \<Rightarrow> 'a list" where
  "Array_push xs x = xs @ [x]"

subsection \<open>The subject\<close>

text \<open>
  \<open>class ConcreteSubject\<close>: the public field \<open>state\<close> (initially 0) and the private
  array \<open>observers\<close> (initially empty). The program stores integers only in \<open>state\<close>
  (0, and the result of \<open>Math.floor\<close>), so the \<open>number\<close> is an \<open>int\<close>.
\<close>

record ConcreteSubject =
  state :: int
  observers :: "ref list"

definition new_ConcreteSubject :: ConcreteSubject where
  "new_ConcreteSubject = \<lparr>state = 0, observers = []\<rparr>"

text \<open>
  A method of the subject takes \<open>this\<close> and returns how it completed, the subject
  afterwards and the lines it wrote to the console.
\<close>

definition subscribe :: "ref \<Rightarrow> ConcreteSubject \<Rightarrow> completion \<times> ConcreteSubject \<times> line list" where
  "subscribe observer this =
     (let isExist = Array_includes (observers this) observer in
      if isExist
      then (Returned, this, [[Str ''Subject: Observer has been Subscribed already.'']])
      else (Returned, this\<lparr>observers := Array_push (observers this) observer\<rparr>,
            [[Str ''Subject: Subscribed an observer.'']]))"

definition unsubscribe :: "ref \<Rightarrow> ConcreteSubject \<Rightarrow> completion \<times> ConcreteSubject \<times> line list" where
  "unsubscribe observer this =
     (let observerIndex = Array_indexOf (observers this) observer in
      if observerIndex = - 1
      then (Returned, this, [[Str ''Subject: Nonexistent observer.'']])
      else (Returned, this\<lparr>observers := Array_splice (observers this) observerIndex 1\<rparr>,
            [[Str ''Subject: Unsubscribed an observer.'']]))"

text \<open>A client's sequence of \<open>subscribe\<close> calls, the console lines concatenated.\<close>

fun subscribe_calls :: "ref list \<Rightarrow> ConcreteSubject \<Rightarrow> ConcreteSubject \<times> line list" where
  "subscribe_calls [] this = (this, [])"
| "subscribe_calls (observer # rest) this =
     (case subscribe observer this of
        (_, this', ls) \<Rightarrow>
          (case subscribe_calls rest this' of (this'', ls') \<Rightarrow> (this'', ls @ ls')))"

subsection \<open>The observers\<close>

text \<open>
  The own properties of an object. The two observer classes declare none; the
  receiver is passed to \<open>update\<close> all the same, as JavaScript does, so that what a method
  does to it can be stated.
\<close>

type_synonym props = "string \<rightharpoonup> int"

text \<open>
  What \<open>update\<close> may be handed as its \<open>subject: Subject\<close>: an instance of
  \<open>ConcreteSubject\<close>, or an object of some other class implementing the interface,
  given by its properties (which may include one named \<open>state\<close>).
\<close>

datatype subject_value = Instance ConcreteSubject | Foreign props

text \<open>
  \<open>update\<close> returns how it completed, the receiver and the subject afterwards, and
  the lines written to the console. The test
  \<open>subject instanceof ConcreteSubject && subject.state < 7\<close> reads \<open>state\<close> only of an
  instance.
\<close>

definition ConcreteObserverA_update ::
  "props \<Rightarrow> subject_value \<Rightarrow> completion \<times> props \<times> subject_value \<times> line list" where
  "ConcreteObserverA_update this subject =
     (case subject of
        Instance s \<Rightarrow>
          if state s < 7
          then (Returned, this, subject,
                [[Str ''ConcreteObserverA: Reacted to the event. New value: '', Num (state s)]])
          else (Returned, this, subject, [])
      | Foreign _ \<Rightarrow> (Returned, this, subject, []))"

definition ConcreteObserverB_update ::
  "props \<Rightarrow> subject_value \<Rightarrow> completion \<times> props \<times> subject_value \<times> line list" where
  "ConcreteObserverB_update this subject =
     (case subject of
        Instance s \<Rightarrow>
          if state s \<ge> 7
          then (Returned, this, subject,
                [[Str ''ConcreteObserverB: Reacted to the event. New value: '', Num (state s)]])
          else (Returned, this, subject, [])
      | Foreign _ \<Rightarrow> (Returned, this, subject, []))"

text \<open>The lines of a call's result: the reaction trace of an observer.\<close>

definition trace_of :: "completion \<times> props \<times> subject_value \<times> line list \<Rightarrow> line list" where
  "trace_of r = snd (snd (snd r))"

text \<open>
  The two observer classes of the file, and the dispatch of \<open>observer.update(this)\<close> to
  them from within the subject: the argument is the subject itself, an instance of
  \<open>ConcreteSubject\<close>, and it is that object the call may have changed. (The two
  classes hand back the instance they were given, so the second case of
  \<open>on_instance\<close> never applies.)
\<close>

datatype observer_class = ConcreteObserverA | ConcreteObserverB

definition on_instance ::
  "ConcreteSubject \<Rightarrow> completion \<times> props \<times> subject_value \<times> line list \<Rightarrow>
   completion \<times> props \<times> ConcreteSubject \<times> line list" where
  "on_instance this r =
     (case r of (k, receiver, subject, ls) \<Rightarrow>
        (k, receiver, (case subject of Instance s \<Rightarrow> s | Foreign _ \<Rightarrow> this), ls))"

fun update ::
  "observer_class \<Rightarrow> props \<Rightarrow> ConcreteSubject \<Rightarrow>
   completion \<times> props \<times> ConcreteSubject \<times> line list" where
  "update ConcreteObserverA receiver this =
     on_instance this (ConcreteObserverA_update receiver (Instance this))"
| "update ConcreteObserverB receiver this =
     on_instance this (ConcreteObserverB_update receiver (Instance this))"

subsection \<open>Notification\<close>

text \<open>
  What a run leaves behind is recorded as a sequence of events: the console lines,
  and a mark for every call of \<open>update\<close>, with the observer called. The marks are not
  output of the program.
\<close>

datatype event = Console line | Invoke ref

fun invoked :: "event list \<Rightarrow> ref list" where
  "invoked [] = []"
| "invoked (Console _ # es) = invoked es"
| "invoked (Invoke r # es) = r # invoked es"

fun console :: "event list \<Rightarrow> line list" where
  "console [] = []"
| "console (Console l # es) = l # console es"
| "console (Invoke _ # es) = console es"

text \<open>
  The subject, the own properties of every observer object, and the events so far.
\<close>

record world =
  subj :: ConcreteSubject
  objs :: "ref \<Rightarrow> props"
  out :: "event list"

definition console_log :: "line \<Rightarrow> world \<Rightarrow> world" where
  "console_log l w = w\<lparr>out := out w @ [Console l]\<rparr>"

text \<open>
  \<open>interface Observer\<close> is open: besides the two classes of the file, any object with
  an \<open>update\<close> method can be subscribed. What the \<open>update\<close> of such an object does is
  arbitrary code: it may read and write everything it can reach (the public \<open>state\<close>,
  its own and other objects' properties), log, throw, call \<open>subscribe\<close>,
  \<open>unsubscribe\<close>, \<open>notify\<close> and \<open>someBusinessLogic\<close> of the subject and \<open>update\<close> of
  other observers, or never return. It is therefore given as a partial function on
  worlds, taking the reference of the receiver: \<open>None\<close> is a call that does not
  return, and the events of the world it returns hold what the calls it made have
  logged and marked.
\<close>

datatype observer =
    Provided observer_class
  | OtherObserver "ref \<Rightarrow> world \<Rightarrow> (completion \<times> world) option"

text \<open>
  A call \<open>observer.update(subject)\<close> on the world's subject. The class of every
  observer object is fixed; the table \<open>cls\<close> is a parameter of the operations.
\<close>

definition call_update ::
  "(ref \<Rightarrow> observer) \<Rightarrow> ref \<Rightarrow> world \<Rightarrow> (completion \<times> world) option" where
  "call_update cls observer w =
     (let w1 = w\<lparr>out := out w @ [Invoke observer]\<rparr> in
      case cls observer of
        Provided c \<Rightarrow>
          (case update c (objs w1 observer) (subj w1) of
             (k, receiver, this, ls) \<Rightarrow>
               Some (k, \<lparr>subj = this, objs = (objs w1)(observer := receiver),
                        out = out w1 @ map Console ls\<rparr>))
      | OtherObserver f \<Rightarrow> f observer w1)"

text \<open>
  \<open>for (const observer of this.observers) observer.update(this)\<close>. The array iterator
  keeps an index into the array itself: each round it compares the index with the
  current length and reads the current element, so it sees what an \<open>update\<close> did to
  the array through \<open>subscribe\<close> and \<open>unsubscribe\<close>. An exception leaves the loop. The
  loop need not end (an observer may subscribe another one every time, or not
  return), hence the option: \<open>None\<close> is a run that does not return.
\<close>

partial_function (option) notify_loop ::
  "(ref \<Rightarrow> observer) \<Rightarrow> nat \<Rightarrow> world \<Rightarrow> (completion \<times> world) option" where
  [code]: "notify_loop cls i w =
     (if i < length (observers (subj w))
      then (case call_update cls (observers (subj w) ! i) w of
              None \<Rightarrow> None
            | Some (Returned, w') \<Rightarrow> notify_loop cls (Suc i) w'
            | Some (Threw e, w') \<Rightarrow> Some (Threw e, w'))
      else Some (Returned, w))"

definition notify :: "(ref \<Rightarrow> observer) \<Rightarrow> world \<Rightarrow> (completion \<times> world) option" where
  "notify cls w =
     notify_loop cls 0 (console_log [Str ''Subject: Notifying observers...''] w)"

subsection \<open>The numbers of \<open>someBusinessLogic\<close>\<close>

text \<open>
  \<open>Math.floor(Math.random() * (10 + 1))\<close> is computed on IEEE 754 doubles. A
  non-negative double below \<open>2^53\<close> is \<open>mantissa / 2^scale\<close> with a mantissa of at most
  53 bits and a scale of at most 1074 (the exponent of the smallest subnormal).
  \<open>Math.random()\<close> returns such a double that is less than 1; which one is not the
  program's choice, so it is a parameter of \<open>someBusinessLogic\<close>.
\<close>

record double =
  mantissa :: nat
  scale :: nat

definition is_double :: "double \<Rightarrow> bool" where
  "is_double d = (mantissa d < 2 ^ 53 \<and> scale d \<le> 1074)"

definition Math_random_result :: "double \<Rightarrow> bool" where
  "Math_random_result d = (is_double d \<and> mantissa d < 2 ^ scale d)"

text \<open>\<open>n / 2^s\<close> rounded to the nearest integer, a tie to the even one.\<close>

definition round_to_even :: "nat \<Rightarrow> nat \<Rightarrow> nat" where
  "round_to_even n s =
     (let q = n div 2 ^ s; r = n mod 2 ^ s in
      if 2 * r < 2 ^ s then q
      else if 2 * r > 2 ^ s then q + 1
      else if even q then q else q + 1)"

text \<open>
  A natural number rounded to 53 significant bits: the bits beyond the 53rd are
  rounded away (\<open>floorlog 2 n\<close> is the number of bits of \<open>n\<close>).
\<close>

definition round53 :: "nat \<Rightarrow> nat" where
  "round53 n = (let s = floorlog 2 n - 53 in round_to_even n s * 2 ^ s)"

text \<open>
  The double product of a double and a natural number that is itself a double (here
  \<open>10 + 1\<close>): the exact product has the same scale, and its mantissa is rounded to 53
  bits. With a scale of at most 1074 a product of more than 53 bits is a normal
  number, so that this is the rounding of IEEE 754 multiplication in the default mode.
\<close>

definition times_nat :: "double \<Rightarrow> nat \<Rightarrow> double" where
  "times_nat d k = \<lparr>mantissa = round53 (mantissa d * k), scale = scale d\<rparr>"

definition Math_floor :: "double \<Rightarrow> int" where
  "Math_floor d = int (mantissa d div 2 ^ scale d)"

subsection \<open>The business logic\<close>

definition someBusinessLogic ::
  "(ref \<Rightarrow> observer) \<Rightarrow> double \<Rightarrow> world \<Rightarrow> (completion \<times> world) option" where
  "someBusinessLogic cls random w =
     (let w1 = console_log [Str (CHR 0x0A # ''Subject: I'm doing something important.'')] w;
          w2 = w1\<lparr>subj := (subj w1)\<lparr>state := Math_floor (times_nat random (10 + 1))\<rparr>\<rparr>;
          w3 = console_log [Str ''Subject: My state has just changed to: '', Num (state (subj w2))] w2
      in notify cls w3)"


subsection \<open>Kinds of observers\<close>

text \<open>An observer object of one of the two classes of the file.\<close>

definition provided :: "observer \<Rightarrow> bool" where
  "provided ob = (ob = Provided ConcreteObserverA \<or> ob = Provided ConcreteObserverB)"

text \<open>
  An observer whose \<open>update\<close>, whenever called, returns normally, leaves the
  subscriber sequence as it was and leads to no further call of \<open>update\<close> (it calls
  neither \<open>notify\<close> nor \<open>someBusinessLogic\<close> nor an \<open>update\<close>): the only new mark is
  that of the call itself.
\<close>

definition returns_quietly :: "(ref \<Rightarrow> observer) \<Rightarrow> ref \<Rightarrow> bool" where
  "returns_quietly cls r =
     (\<forall>v. \<exists>v'. call_update cls r v = Some (Returned, v')
        \<and> observers (subj v') = observers (subj v)
        \<and> invoked (out v') = invoked (out v) @ [r])"

text \<open>
  An observer whose \<open>update\<close>, when it ends, has left the subscriber sequence as it
  was.
\<close>

definition keeps_list :: "(ref \<Rightarrow> observer) \<Rightarrow> ref \<Rightarrow> bool" where
  "keeps_list cls r =
     (\<forall>v k v'. call_update cls r v = Some (k, v') \<longrightarrow>
        observers (subj v') = observers (subj v))"

text \<open>
  A class table in which every \<open>update\<close> called on an observer that is subscribed at
  that moment, when it ends, has left the state as it was.
\<close>

definition keeps_state :: "(ref \<Rightarrow> observer) \<Rightarrow> bool" where
  "keeps_state cls =
     (\<forall>r v k v'. r \<in> set (observers (subj v)) \<and> call_update cls r v = Some (k, v') \<longrightarrow>
        state (subj v') = state (subj v))"

text \<open>
  Observers that are not of the classes of the file, as a client may write them
  against the interfaces:
  \<^verbatim>\<open>{ update(subject) { subject.unsubscribe(this) } }\<close>,
  \<^verbatim>\<open>{ update(subject) { if (subject instanceof ConcreteSubject) subject.state = 42 } }\<close>,
  \<^verbatim>\<open>{ update(subject) { throw "failure" } }\<close> and
  \<^verbatim>\<open>{ busy: 0, update(subject) { if (this.busy === 1) return; this.busy = 1; subject.notify(); this.busy = 0 } }\<close>.
\<close>

definition unsubscribing_observer :: observer where
  "unsubscribing_observer =
     OtherObserver (\<lambda>this w.
       case unsubscribe this (subj w) of
         (k, subject', ls) \<Rightarrow> Some (k, w\<lparr>subj := subject', out := out w @ map Console ls\<rparr>))"

definition state_setting_observer :: observer where
  "state_setting_observer =
     OtherObserver (\<lambda>this w. Some (Returned, w\<lparr>subj := (subj w)\<lparr>state := 42\<rparr>\<rparr>))"

definition throwing_observer :: observer where
  "throwing_observer = OtherObserver (\<lambda>this w. Some (Threw ''failure'', w))"

text \<open>
  The last one calls \<open>notify\<close> of the subject it is subscribed to, as observer 0
  beside observers of class \<open>ConcreteObserverA\<close>. During that inner \<open>notify\<close> its flag
  is set, so that its own \<open>update\<close> returns at once: \<open>busy_table\<close> is the class table
  as it behaves while the flag is set (\<open>reentrant_observer_calls_notify\<close> below).
\<close>

definition is_busy :: "ref \<Rightarrow> world \<Rightarrow> bool" where
  "is_busy this w = (objs w this ''busy'' = Some 1)"

definition set_busy :: "ref \<Rightarrow> int \<Rightarrow> world \<Rightarrow> world" where
  "set_busy this b w = w\<lparr>objs := (objs w)(this := (objs w this)(''busy'' \<mapsto> b))\<rparr>"

definition busy_table :: "ref \<Rightarrow> observer" where
  "busy_table r =
     (if r = 0 then OtherObserver (\<lambda>this w. Some (Returned, w))
      else Provided ConcreteObserverA)"

definition reentrant_observer :: observer where
  "reentrant_observer =
     OtherObserver (\<lambda>this w.
       if is_busy this w then Some (Returned, w)
       else (case notify busy_table (set_busy this 1 w) of
               None \<Rightarrow> None
             | Some (Returned, w') \<Rightarrow> Some (Returned, set_busy this 0 w')
             | Some (Threw e, w') \<Rightarrow> Some (Threw e, w')))"

text \<open>Class tables and worlds of the examples.\<close>

definition thrower_then_A :: "ref \<Rightarrow> observer" where
  "thrower_then_A r = (if r = 0 then throwing_observer else Provided ConcreteObserverA)"

definition unsubscriber_then_A :: "ref \<Rightarrow> observer" where
  "unsubscriber_then_A r = (if r = 0 then unsubscribing_observer else Provided ConcreteObserverA)"

definition setter_then_A :: "ref \<Rightarrow> observer" where
  "setter_then_A r = (if r = 0 then state_setting_observer else Provided ConcreteObserverA)"

definition reentrant_then_A :: "ref \<Rightarrow> observer" where
  "reentrant_then_A r = (if r = 0 then reentrant_observer else Provided ConcreteObserverA)"

definition A_and_B :: "ref \<Rightarrow> observer" where
  "A_and_B r = (if r = 1 then Provided ConcreteObserverA else Provided ConcreteObserverB)"

definition world_of :: "ConcreteSubject \<Rightarrow> world" where
  "world_of s = \<lparr>subj = s, objs = (\<lambda>_. Map.empty), out = []\<rparr>"

text \<open>
  What is observed of a run: its completion, the subject at its end, the observers
  whose \<open>update\<close> was called, in the order of the calls, and the console lines.
\<close>

definition outcome ::
  "(completion \<times> world) option \<Rightarrow>
   (completion \<times> ConcreteSubject \<times> ref list \<times> line list) option" where
  "outcome r =
     (case r of
        None \<Rightarrow> None
      | Some (k, w) \<Rightarrow> Some (k, subj w, invoked (out w), console (out w)))"

section \<open>Properties\<close>

subsection \<open>Array operations\<close>

lemma indexOf_absent: "x \<notin> set xs \<Longrightarrow> Array_indexOf xs x = - 1"
  by (induction xs) auto

lemma indexOf_range: "Array_indexOf xs x = - 1 \<or> (0 \<le> Array_indexOf xs x \<and> Array_indexOf xs x < int (length xs))"
  by (induction xs) (auto simp: Let_def)

lemma indexOf_present: "x \<in> set xs \<Longrightarrow> Array_indexOf xs x \<noteq> - 1"
proof (induction xs)
  case Nil
  then show ?case by simp
next
  case (Cons y ys)
  show ?case
  proof (cases "y = x")
    case True
    then show ?thesis by simp
  next
    case False
    with Cons have "Array_indexOf ys x \<noteq> - 1" by simp
    moreover have "0 \<le> Array_indexOf ys x \<or> Array_indexOf ys x = - 1"
      using indexOf_range [of ys x] by auto
    ultimately show ?thesis using False by (simp add: Let_def)
  qed
qed

lemma indexOf_first:
  "x \<notin> set ys \<Longrightarrow> Array_indexOf (ys @ x # zs) x = int (length ys)"
proof (induction ys)
  case Nil
  then show ?case by simp
next
  case (Cons y ys)
  then show ?case by (auto simp: Let_def)
qed

lemma splice_one:
  "Array_splice (ys @ x # zs) (int (length ys)) 1 = ys @ zs"
proof -
  have "nat (int (length ys) + 1) = Suc (length ys)" by simp
  then show ?thesis by (simp add: Array_splice_def Let_def)
qed

subsection \<open>Subscribing\<close>

lemma subscribe_present:
  "observer \<in> set (observers this) \<Longrightarrow>
   subscribe observer this =
     (Returned, this, [[Str ''Subject: Observer has been Subscribed already.'']])"
  by (simp add: subscribe_def Array_includes_def)

lemma subscribe_absent:
  "observer \<notin> set (observers this) \<Longrightarrow>
   subscribe observer this =
     (Returned, this\<lparr>observers := observers this @ [observer]\<rparr>,
      [[Str ''Subject: Subscribed an observer.'']])"
  by (simp add: subscribe_def Array_includes_def Array_push_def)

lemma subscribe_distinct:
  "distinct (observers this) \<Longrightarrow> distinct (observers (fst (snd (subscribe observer this))))"
  by (cases "observer \<in> set (observers this)") (simp_all add: subscribe_present subscribe_absent)

lemma subscribe_set:
  "set (observers (fst (snd (subscribe observer this)))) = insert observer (set (observers this))"
  by (cases "observer \<in> set (observers this)")
    (auto simp: subscribe_present subscribe_absent)

lemma subscribe_prefix:
  "take (length (observers this)) (observers (fst (snd (subscribe observer this)))) = observers this"
  by (cases "observer \<in> set (observers this)") (simp_all add: subscribe_present subscribe_absent)

lemma subscribe_length:
  "length (observers this) \<le> length (observers (fst (snd (subscribe observer this))))"
  by (cases "observer \<in> set (observers this)") (simp_all add: subscribe_present subscribe_absent)

lemma subscribe_calls_step:
  "fst (subscribe_calls (observer # rest) this) =
   fst (subscribe_calls rest (fst (snd (subscribe observer this))))"
  by (simp split: prod.splits)

lemma subscribe_calls_distinct:
  "distinct (observers this) \<Longrightarrow> distinct (observers (fst (subscribe_calls rs this)))"
proof (induction rs arbitrary: this)
  case Nil
  then show ?case by simp
next
  case (Cons r rs)
  have "distinct (observers (fst (snd (subscribe r this))))"
    using Cons.prems by (rule subscribe_distinct)
  then have "distinct (observers (fst (subscribe_calls rs (fst (snd (subscribe r this))))))"
    by (rule Cons.IH)
  then show ?case by (simp only: subscribe_calls_step)
qed

lemma subscribe_calls_set:
  "set (observers (fst (subscribe_calls rs this))) = set (observers this) \<union> set rs"
proof (induction rs arbitrary: this)
  case Nil
  then show ?case by simp
next
  case (Cons r rs)
  have "set (observers (fst (subscribe_calls (r # rs) this))) =
        set (observers (fst (snd (subscribe r this)))) \<union> set rs"
    by (simp only: subscribe_calls_step Cons.IH)
  then show ?case by (simp add: subscribe_set)
qed

lemma subscribe_calls_prefix:
  "take (length (observers this)) (observers (fst (subscribe_calls rs this))) = observers this"
proof (induction rs arbitrary: this)
  case Nil
  then show ?case by simp
next
  case (Cons r rs)
  let ?mid = "fst (snd (subscribe r this))"
  let ?fin = "fst (subscribe_calls rs ?mid)"
  have a: "take (length (observers ?mid)) (observers ?fin) = observers ?mid"
    by (rule Cons.IH)
  have b: "take (length (observers this)) (observers ?mid) = observers this"
    by (rule subscribe_prefix)
  have c: "length (observers this) \<le> length (observers ?mid)"
    by (rule subscribe_length)
  have "take (length (observers this)) (observers ?fin) =
        take (length (observers this)) (take (length (observers ?mid)) (observers ?fin))"
    using c by (simp add: min_def)
  also have "\<dots> = observers this"
    using a b by simp
  finally show ?case by (simp only: subscribe_calls_step)
qed

text \<open>
  Claim C3. Starting from a subscriber sequence without duplicates, any sequence of
  \<open>subscribe\<close> calls leaves a sequence without duplicates, whose entries are the old
  ones and the observers passed, the old ones first and in their old order. A single
  call with an observer already present changes nothing and logs the diagnostic
  \<open>Subject: Observer has been Subscribed already.\<close>; a call with a new observer
  appends it at the end.
\<close>

theorem subscribe_no_duplicates:
  assumes "distinct (observers this)"
  shows "distinct (observers (fst (subscribe_calls rs this)))
    \<and> set (observers (fst (subscribe_calls rs this))) = set (observers this) \<union> set rs
    \<and> take (length (observers this)) (observers (fst (subscribe_calls rs this))) = observers this
    \<and> subscribe observer this =
        (if observer \<in> set (observers this)
         then (Returned, this, [[Str ''Subject: Observer has been Subscribed already.'']])
         else (Returned, this\<lparr>observers := observers this @ [observer]\<rparr>,
               [[Str ''Subject: Subscribed an observer.'']]))"
  using assms
  by (simp add: subscribe_calls_distinct subscribe_calls_set subscribe_calls_prefix
      subscribe_present subscribe_absent)

theorem subscribe_no_duplicates_witness:
  "distinct (observers \<lparr>state = 0, observers = [4, 2]\<rparr>)
   \<and> observers (fst (subscribe_calls [2, 7, 7, 4, 9] \<lparr>state = 0, observers = [4, 2]\<rparr>)) = [4, 2, 7, 9]
   \<and> distinct (observers (fst (subscribe_calls [2, 7, 7, 4, 9] \<lparr>state = 0, observers = [4, 2]\<rparr>)))
   \<and> subscribe 2 \<lparr>state = 0, observers = [4, 2]\<rparr> =
       (Returned, \<lparr>state = 0, observers = [4, 2]\<rparr>,
        [[Str ''Subject: Observer has been Subscribed already.'']])
   \<and> subscribe 7 \<lparr>state = 0, observers = [4, 2]\<rparr> =
       (Returned, \<lparr>state = 0, observers = [4, 2, 7]\<rparr>,
        [[Str ''Subject: Subscribed an observer.'']])"
  using subscribe_no_duplicates [of "\<lparr>state = 0, observers = [4, 2]\<rparr>" "[2, 7, 7, 4, 9]" 2]
    subscribe_no_duplicates [of "\<lparr>state = 0, observers = [4, 2]\<rparr>" "[2, 7, 7, 4, 9]" 7]
  by (simp add: subscribe_def Array_includes_def Array_push_def)

subsection \<open>Unsubscribing\<close>

text \<open>
  Claim C4. Unsubscribing an observer that is not in the subscriber sequence returns
  normally, leaves the subject as it was and logs \<open>Subject: Nonexistent observer.\<close>
\<close>

theorem unsubscribe_unknown:
  assumes "observer \<notin> set (observers this)"
  shows "unsubscribe observer this =
    (Returned, this, [[Str ''Subject: Nonexistent observer.'']])"
  using assms by (simp add: unsubscribe_def indexOf_absent)

theorem unsubscribe_unknown_witness:
  "(5::nat) \<notin> set (observers \<lparr>state = 3, observers = [1, 2]\<rparr>)
   \<and> unsubscribe 5 \<lparr>state = 3, observers = [1, 2]\<rparr> =
       (Returned, \<lparr>state = 3, observers = [1, 2]\<rparr>, [[Str ''Subject: Nonexistent observer.'']])"
  using unsubscribe_unknown [of 5 "\<lparr>state = 3, observers = [1, 2]\<rparr>"] by simp

text \<open>
  Claim C5. Unsubscribing an observer that is in the subscriber sequence removes its
  first occurrence and nothing else: the entries before it and the entries after it
  stay, in their order. The state is not touched and
  \<open>Subject: Unsubscribed an observer.\<close> is logged.
\<close>

theorem unsubscribe_first_occurrence:
  assumes "observer \<in> set (observers this)"
  shows "\<exists>ys zs. observers this = ys @ observer # zs \<and> observer \<notin> set ys
    \<and> ys @ zs = remove1 observer (observers this)
    \<and> unsubscribe observer this =
        (Returned, this\<lparr>observers := ys @ zs\<rparr>, [[Str ''Subject: Unsubscribed an observer.'']])"
proof -
  from assms obtain ys zs where split: "observers this = ys @ observer # zs" "observer \<notin> set ys"
    by (auto dest: split_list_first)
  have idx: "Array_indexOf (observers this) observer = int (length ys)"
    using split by (simp add: indexOf_first)
  have cut: "Array_splice (observers this) (int (length ys)) 1 = ys @ zs"
    by (simp only: split(1) splice_one)
  have "unsubscribe observer this =
      (Returned, this\<lparr>observers := ys @ zs\<rparr>, [[Str ''Subject: Unsubscribed an observer.'']])"
    by (simp add: unsubscribe_def idx cut)
  moreover have "ys @ zs = remove1 observer (observers this)"
    using split by (simp add: remove1_append)
  ultimately show ?thesis using split by blast
qed

theorem unsubscribe_first_occurrence_witness:
  "(1::nat) \<in> set (observers \<lparr>state = 3, observers = [2, 1, 5, 1, 4]\<rparr>)
   \<and> unsubscribe 1 \<lparr>state = 3, observers = [2, 1, 5, 1, 4]\<rparr> =
       (Returned, \<lparr>state = 3, observers = [2, 5, 1, 4]\<rparr>,
        [[Str ''Subject: Unsubscribed an observer.'']])"
proof -
  have h: "(1::nat) \<in> set (observers \<lparr>state = 3, observers = [2, 1, 5, 1, 4]\<rparr>)" by simp
  from unsubscribe_first_occurrence [OF h]
  obtain ys zs where
    "ys @ zs = remove1 1 (observers \<lparr>state = 3, observers = [2, 1, 5, 1, 4]\<rparr>)"
    "unsubscribe 1 \<lparr>state = 3, observers = [2, 1, 5, 1, 4]\<rparr> =
       (Returned, \<lparr>state = 3, observers = [2, 1, 5, 1, 4]\<rparr>\<lparr>observers := ys @ zs\<rparr>,
        [[Str ''Subject: Unsubscribed an observer.'']])"
    by blast
  then show ?thesis by simp
qed

subsection \<open>The two observer classes\<close>

lemma ConcreteObserverA_update_Instance:
  "ConcreteObserverA_update this (Instance s) =
     (Returned, this, Instance s,
      if state s < 7
      then [[Str ''ConcreteObserverA: Reacted to the event. New value: '', Num (state s)]]
      else [])"
  by (simp add: ConcreteObserverA_update_def)

lemma ConcreteObserverB_update_Instance:
  "ConcreteObserverB_update this (Instance s) =
     (Returned, this, Instance s,
      if 7 \<le> state s
      then [[Str ''ConcreteObserverB: Reacted to the event. New value: '', Num (state s)]]
      else [])"
  by (simp add: ConcreteObserverB_update_def)

lemma ConcreteObserverA_update_Foreign:
  "ConcreteObserverA_update this (Foreign f) = (Returned, this, Foreign f, [])"
  by (simp add: ConcreteObserverA_update_def)

lemma ConcreteObserverB_update_Foreign:
  "ConcreteObserverB_update this (Foreign f) = (Returned, this, Foreign f, [])"
  by (simp add: ConcreteObserverB_update_def)

text \<open>
  Claim C2. On a \<open>ConcreteSubject\<close> with integer state \<open>n\<close>, observer A logs its
  reaction line exactly when \<open>n < 7\<close> and observer B exactly when \<open>n \<ge> 7\<close>; for every
  \<open>n\<close>, so in particular for the eleven values 0 to 10, exactly one of the two reacts.
\<close>

theorem observers_partition_states:
  "(trace_of (ConcreteObserverA_update a (Instance \<lparr>state = n, observers = os\<rparr>)) \<noteq> []) = (n < 7)
   \<and> (trace_of (ConcreteObserverB_update b (Instance \<lparr>state = n, observers = os\<rparr>)) \<noteq> []) = (n \<ge> 7)
   \<and> (trace_of (ConcreteObserverA_update a (Instance \<lparr>state = n, observers = os\<rparr>)) \<noteq> [])
       \<noteq> (trace_of (ConcreteObserverB_update b (Instance \<lparr>state = n, observers = os\<rparr>)) \<noteq> [])
   \<and> {0..10} \<inter> {n. trace_of (ConcreteObserverA_update a (Instance \<lparr>state = n, observers = os\<rparr>)) \<noteq> []}
       = {0..6}
   \<and> {0..10} \<inter> {n. trace_of (ConcreteObserverB_update b (Instance \<lparr>state = n, observers = os\<rparr>)) \<noteq> []}
       = {7..10}"
  by (auto simp: trace_of_def ConcreteObserverA_update_Instance ConcreteObserverB_update_Instance)

text \<open>
  Claim C7. \<open>update\<close> of either observer class returns normally with the subject it
  was given unchanged (its state and its subscriber sequence, or whatever a foreign
  subject holds). It neither writes the receiver's own properties nor reads them: the
  receiver comes back as it was, and the lines logged are the same for any receiver.
\<close>

theorem observer_update_frame:
  "fst (ConcreteObserverA_update this subject) = Returned
   \<and> fst (snd (ConcreteObserverA_update this subject)) = this
   \<and> fst (snd (snd (ConcreteObserverA_update this subject))) = subject
   \<and> trace_of (ConcreteObserverA_update this subject) = trace_of (ConcreteObserverA_update other subject)
   \<and> fst (ConcreteObserverB_update this subject) = Returned
   \<and> fst (snd (ConcreteObserverB_update this subject)) = this
   \<and> fst (snd (snd (ConcreteObserverB_update this subject))) = subject
   \<and> trace_of (ConcreteObserverB_update this subject) = trace_of (ConcreteObserverB_update other subject)
   \<and> fst (snd (snd (update ConcreteObserverA this s))) = s
   \<and> fst (snd (snd (update ConcreteObserverB this s))) = s"
  by (cases subject)
    (simp_all add: trace_of_def on_instance_def ConcreteObserverA_update_def
      ConcreteObserverB_update_def)

text \<open>
  Claim C9. Handed a subject that is not an instance of \<open>ConcreteSubject\<close>, both
  observers return normally, log nothing and change neither the subject nor
  themselves, whatever properties the subject has (a \<open>state\<close> below or above 7
  included).
\<close>

theorem observer_ignores_foreign_subject:
  "ConcreteObserverA_update this (Foreign f) = (Returned, this, Foreign f, [])
   \<and> ConcreteObserverB_update this (Foreign f) = (Returned, this, Foreign f, [])
   \<and> trace_of (ConcreteObserverA_update this (Foreign (g(''state'' \<mapsto> 3)))) = []
   \<and> trace_of (ConcreteObserverB_update this (Foreign (g(''state'' \<mapsto> 9)))) = []"
  by (simp add: trace_of_def ConcreteObserverA_update_Foreign ConcreteObserverB_update_Foreign)

subsection \<open>Events\<close>

lemma invoked_append: "invoked (es @ fs) = invoked es @ invoked fs"
  by (induction es rule: invoked.induct) simp_all

lemma invoked_Console: "invoked (map Console ls) = []"
  by (induction ls) simp_all

lemma console_append: "console (es @ fs) = console es @ console fs"
  by (induction es rule: console.induct) simp_all

lemma console_Console: "console (map Console ls) = ls"
  by (induction ls) simp_all

subsection \<open>One call of \<open>update\<close>\<close>

lemma update_returns:
  "update c receiver this =
     (Returned, receiver, this, snd (snd (snd (update c receiver this))))"
  by (cases c)
    (simp_all add: on_instance_def ConcreteObserverA_update_def ConcreteObserverB_update_def)

lemma call_update_Provided:
  assumes "cls r = Provided c"
  shows "call_update cls r v =
    Some (Returned,
      v\<lparr>out := out v @ Invoke r # map Console (snd (snd (snd (update c (objs v r) (subj v)))))\<rparr>)"
proof -
  obtain ls where u: "update c (objs v r) (subj v) = (Returned, objs v r, subj v, ls)"
    using update_returns [of c "objs v r" "subj v"] by blast
  have "(objs v)(r := objs v r) = objs v" by simp
  then show ?thesis
    using assms u by (simp add: call_update_def Let_def)
qed

lemma provided_cases: "provided ob \<Longrightarrow> \<exists>c. ob = Provided c"
  by (auto simp: provided_def)

lemma provided_returns_quietly:
  assumes "provided (cls r)"
  shows "returns_quietly cls r"
proof -
  from assms obtain c where c: "cls r = Provided c" by (auto dest: provided_cases)
  show ?thesis
    unfolding returns_quietly_def
    by (simp add: call_update_Provided [where cls = cls and r = r, OF c] invoked_append invoked_Console)
qed

lemma provided_keeps_list:
  assumes "provided (cls r)"
  shows "keeps_list cls r"
proof -
  from assms obtain c where c: "cls r = Provided c" by (auto dest: provided_cases)
  show ?thesis
    unfolding keeps_list_def
    by (auto simp: call_update_Provided [where cls = cls and r = r, OF c])
qed

lemma provided_keeps_state:
  assumes "\<forall>r. provided (cls r)"
  shows "keeps_state cls"
  unfolding keeps_state_def
proof (intro allI impI)
  fix r v k v'
  assume a: "r \<in> set (observers (subj v)) \<and> call_update cls r v = Some (k, v')"
  from assms obtain c where c: "cls r = Provided c" by (auto dest: provided_cases)
  from a show "state (subj v') = state (subj v)"
    by (auto simp: call_update_Provided [where cls = cls and r = r, OF c])
qed


subsection \<open>The loop of \<open>notify\<close>\<close>

lemma notify_loop_done:
  "\<not> i < length (observers (subj w)) \<Longrightarrow> notify_loop cls i w = Some (Returned, w)"
  by (subst notify_loop.simps) simp

lemma notify_loop_step:
  assumes "i < length (observers (subj w))"
    and "call_update cls (observers (subj w) ! i) w = Some (Returned, w1)"
  shows "notify_loop cls i w = notify_loop cls (Suc i) w1"
  using assms by (subst notify_loop.simps) simp

lemma notify_loop_throw:
  assumes "i < length (observers (subj w))"
    and "call_update cls (observers (subj w) ! i) w = Some (Threw e, w1)"
  shows "notify_loop cls i w = Some (Threw e, w1)"
  using assms by (subst notify_loop.simps) simp

lemma notify_loop_None:
  assumes "i < length (observers (subj w))"
    and "call_update cls (observers (subj w) ! i) w = None"
  shows "notify_loop cls i w = None"
  using assms by (subst notify_loop.simps) simp

text \<open>The four ways a round of the loop can go.\<close>

lemma notify_loop_cases:
  assumes "notify_loop cls i w = Some (k, w')"
  shows "(\<not> i < length (observers (subj w)) \<and> k = Returned \<and> w' = w)
    \<or> (i < length (observers (subj w))
        \<and> (\<exists>e. k = Threw e \<and> call_update cls (observers (subj w) ! i) w = Some (Threw e, w')))
    \<or> (i < length (observers (subj w))
        \<and> (\<exists>w1. call_update cls (observers (subj w) ! i) w = Some (Returned, w1)
              \<and> notify_loop cls (Suc i) w1 = Some (k, w')))"
proof (cases "i < length (observers (subj w))")
  case False
  with assms show ?thesis by (simp add: notify_loop_done)
next
  case True
  show ?thesis
  proof (cases "call_update cls (observers (subj w) ! i) w")
    case None
    with True assms show ?thesis by (simp add: notify_loop_None)
  next
    case (Some y)
    obtain c w1 where y: "y = (c, w1)" by (cases y)
    show ?thesis
    proof (cases c)
      case Returned
      with Some y have cu: "call_update cls (observers (subj w) ! i) w = Some (Returned, w1)"
        by simp
      with True assms have "notify_loop cls (Suc i) w1 = Some (k, w')"
        by (simp add: notify_loop_step)
      with True cu show ?thesis by blast
    next
      case (Threw e)
      with Some y have cu: "call_update cls (observers (subj w) ! i) w = Some (Threw e, w1)"
        by simp
      with True assms have "k = Threw e \<and> w1 = w'"
        by (simp add: notify_loop_throw)
      with True cu show ?thesis by blast
    qed
  qed
qed

lemma notify_loop_quiet:
  assumes "\<forall>r \<in> set (observers (subj w)). returns_quietly cls r"
  shows "\<exists>w'. notify_loop cls i w = Some (Returned, w')
    \<and> observers (subj w') = observers (subj w)
    \<and> invoked (out w') = invoked (out w) @ drop i (observers (subj w))"
  using assms
proof (induction "length (observers (subj w)) - i" arbitrary: i w)
  case 0
  then have "\<not> i < length (observers (subj w))" by simp
  then show ?case by (simp add: notify_loop_done)
next
  case (Suc n)
  let ?r = "observers (subj w) ! i"
  from Suc.hyps(2) have lt: "i < length (observers (subj w))" by simp
  then have "?r \<in> set (observers (subj w))" by simp
  with Suc.prems have "returns_quietly cls ?r" by blast
  then obtain w1 where w1:
    "call_update cls ?r w = Some (Returned, w1)"
    "observers (subj w1) = observers (subj w)"
    "invoked (out w1) = invoked (out w) @ [?r]"
    unfolding returns_quietly_def by blast
  have "n = length (observers (subj w1)) - Suc i"
    using Suc.hyps(2) w1(2) by simp
  moreover have "\<forall>r \<in> set (observers (subj w1)). returns_quietly cls r"
    using Suc.prems w1(2) by simp
  ultimately obtain w' where w':
    "notify_loop cls (Suc i) w1 = Some (Returned, w')"
    "observers (subj w') = observers (subj w1)"
    "invoked (out w') = invoked (out w1) @ drop (Suc i) (observers (subj w1))"
    using Suc.hyps(1) by blast
  have run: "notify_loop cls i w = Some (Returned, w')"
    using lt w1(1) w'(1) by (simp add: notify_loop_step)
  have "invoked (out w') = invoked (out w) @ ?r # drop (Suc i) (observers (subj w))"
    using w'(3) w1(2,3) by simp
  then have "invoked (out w') = invoked (out w) @ drop i (observers (subj w))"
    using lt by (simp add: Cons_nth_drop_Suc)
  with run w'(2) w1(2) show ?case by simp
qed

lemma notify_quiet:
  assumes "\<forall>r \<in> set (observers (subj w)). returns_quietly cls r"
  shows "\<exists>w'. notify cls w = Some (Returned, w')
    \<and> observers (subj w') = observers (subj w)
    \<and> invoked (out w') = invoked (out w) @ observers (subj w)"
proof -
  let ?w0 = "console_log [Str ''Subject: Notifying observers...''] w"
  have s0: "subj ?w0 = subj w" and o0: "invoked (out ?w0) = invoked (out w)"
    by (simp_all add: console_log_def invoked_append)
  from assms have "\<forall>r \<in> set (observers (subj ?w0)). returns_quietly cls r"
    by (simp add: s0)
  from notify_loop_quiet [OF this, of 0] show ?thesis
    by (simp add: notify_def s0 o0)
qed

lemma notify_loop_keeps_list:
  assumes "\<forall>r \<in> set (observers (subj w)). keeps_list cls r"
    and "notify_loop cls i w = Some (k, w')"
  shows "observers (subj w') = observers (subj w)"
  using assms
proof (induction "length (observers (subj w)) - i" arbitrary: i w)
  case 0
  then have "\<not> i < length (observers (subj w))" by simp
  with "0.prems"(2) show ?case by (simp add: notify_loop_done)
next
  case (Suc n)
  let ?r = "observers (subj w) ! i"
  from Suc.hyps(2) have lt: "i < length (observers (subj w))" by simp
  then have "?r \<in> set (observers (subj w))" by simp
  with Suc.prems(1) have kl: "keeps_list cls ?r" by blast
  from notify_loop_cases [OF Suc.prems(2)] lt
  consider (threw) e where "call_update cls ?r w = Some (Threw e, w')"
    | (go) w1 where "call_update cls ?r w = Some (Returned, w1)"
        "notify_loop cls (Suc i) w1 = Some (k, w')"
    by blast
  then show ?case
  proof cases
    case threw
    with kl show ?thesis unfolding keeps_list_def by blast
  next
    case go
    from kl go(1) have same: "observers (subj w1) = observers (subj w)"
      unfolding keeps_list_def by blast
    have "n = length (observers (subj w1)) - Suc i"
      using Suc.hyps(2) same by simp
    moreover have "\<forall>r \<in> set (observers (subj w1)). keeps_list cls r"
      using Suc.prems(1) same by simp
    ultimately have "observers (subj w') = observers (subj w1)"
      using go(2) Suc.hyps(1) by blast
    with same show ?thesis by simp
  qed
qed

lemma notify_loop_keeps_state:
  assumes "keeps_state cls"
    and "notify_loop cls i w = Some y"
  shows "state (subj (snd y)) = state (subj w)"
proof -
  have "cls = cls \<longrightarrow> state (subj (snd y)) = state (subj w)"
  proof (rule notify_loop.raw_induct
      [where P = "\<lambda>c i w y. c = cls \<longrightarrow> state (subj (snd y)) = state (subj w)",
        OF _ assms(2)])
    fix loop :: "(ref \<Rightarrow> observer) \<Rightarrow> nat \<Rightarrow> world \<Rightarrow> (completion \<times> world) option"
    fix c i w y
    assume IH: "\<And>c i w y. loop c i w = Some y \<Longrightarrow>
        c = cls \<longrightarrow> state (subj (snd y)) = state (subj w)"
    assume body: "(if i < length (observers (subj w))
        then case call_update c (observers (subj w) ! i) w of
               None \<Rightarrow> None
             | Some (Returned, w') \<Rightarrow> loop c (Suc i) w'
             | Some (Threw e, w') \<Rightarrow> Some (Threw e, w')
        else Some (Returned, w)) = Some y"
    show "c = cls \<longrightarrow> state (subj (snd y)) = state (subj w)"
    proof
      assume c: "c = cls"
      show "state (subj (snd y)) = state (subj w)"
      proof (cases "i < length (observers (subj w))")
        case False
        with body show ?thesis by auto
      next
        case True
        let ?r = "observers (subj w) ! i"
        from True have mem: "?r \<in> set (observers (subj w))" by simp
        show ?thesis
        proof (cases "call_update c ?r w")
          case None
          with True body show ?thesis by simp
        next
          case (Some z)
          obtain k w1 where z: "z = (k, w1)" by (cases z)
          from assms(1) mem Some z c have st: "state (subj w1) = state (subj w)"
            unfolding keeps_state_def by blast
          show ?thesis
          proof (cases k)
            case Returned
            with True Some z body have "loop c (Suc i) w1 = Some y" by simp
            from IH [OF this] c have "state (subj (snd y)) = state (subj w1)" by simp
            with st show ?thesis by simp
          next
            case (Threw e)
            with True Some z body st show ?thesis by auto
          qed
        qed
      qed
    qed
  qed
  then show ?thesis by simp
qed

lemma notify_loop_provided:
  assumes "\<forall>r \<in> set (observers (subj w)). provided (cls r)"
  shows "\<exists>w'. notify_loop cls i w = Some (Returned, w') \<and> subj w' = subj w \<and> objs w' = objs w"
  using assms
proof (induction "length (observers (subj w)) - i" arbitrary: i w)
  case 0
  then have "\<not> i < length (observers (subj w))" by simp
  then show ?case by (simp add: notify_loop_done)
next
  case (Suc n)
  let ?r = "observers (subj w) ! i"
  from Suc.hyps(2) have lt: "i < length (observers (subj w))" by simp
  then have "?r \<in> set (observers (subj w))" by simp
  with Suc.prems obtain c where c: "cls ?r = Provided c"
    by (auto dest: provided_cases)
  let ?w1 = "w\<lparr>out := out w @ Invoke ?r #
      map Console (snd (snd (snd (update c (objs w ?r) (subj w)))))\<rparr>"
  have cu: "call_update cls ?r w = Some (Returned, ?w1)"
    using c by (rule call_update_Provided)
  have "n = length (observers (subj ?w1)) - Suc i"
    using Suc.hyps(2) by simp
  moreover have "\<forall>r \<in> set (observers (subj ?w1)). provided (cls r)"
    using Suc.prems by simp
  ultimately obtain w' where
    "notify_loop cls (Suc i) ?w1 = Some (Returned, w')" "subj w' = subj ?w1" "objs w' = objs ?w1"
    using Suc.hyps(1) by blast
  then show ?case using lt cu by (simp add: notify_loop_step)
qed

lemma notify_provided:
  assumes "\<forall>r \<in> set (observers (subj w)). provided (cls r)"
  shows "\<exists>w'. notify cls w = Some (Returned, w') \<and> subj w' = subj w \<and> objs w' = objs w"
proof -
  let ?w0 = "console_log [Str ''Subject: Notifying observers...''] w"
  have s0: "subj ?w0 = subj w" "objs ?w0 = objs w"
    by (simp_all add: console_log_def)
  from assms have "\<forall>r \<in> set (observers (subj ?w0)). provided (cls r)"
    by (simp add: s0)
  from notify_loop_provided [OF this, of 0] show ?thesis
    by (simp add: notify_def s0)
qed

lemma notify_keeps_list:
  assumes "\<forall>r \<in> set (observers (subj w)). keeps_list cls r"
    and "notify cls w = Some (k, w')"
  shows "observers (subj w') = observers (subj w)"
proof -
  let ?w0 = "console_log [Str ''Subject: Notifying observers...''] w"
  have s0: "subj ?w0 = subj w"
    by (simp add: console_log_def)
  from assms(1) have "\<forall>r \<in> set (observers (subj ?w0)). keeps_list cls r"
    by (simp add: s0)
  moreover from assms(2) have "notify_loop cls 0 ?w0 = Some (k, w')"
    by (simp add: notify_def)
  ultimately have "observers (subj w') = observers (subj ?w0)"
    by (rule notify_loop_keeps_list)
  then show ?thesis by (simp add: s0)
qed

lemma notify_keeps_state:
  assumes "keeps_state cls" and "notify cls w = Some (k, w')"
  shows "state (subj w') = state (subj w)"
proof -
  let ?w0 = "console_log [Str ''Subject: Notifying observers...''] w"
  from assms(2) have "notify_loop cls 0 ?w0 = Some (k, w')"
    by (simp add: notify_def)
  with assms(1) have "state (subj (snd (k, w'))) = state (subj ?w0)"
    by (rule notify_loop_keeps_state)
  then show ?thesis by (simp add: console_log_def)
qed


text \<open>
  With subscribed observers whose \<open>update\<close> ends and keeps the subscriber sequence,
  the loop ends.
\<close>

lemma notify_loop_ends:
  assumes "\<forall>r \<in> set (observers (subj w)).
      keeps_list cls r \<and> (\<forall>v. call_update cls r v \<noteq> None)"
  shows "\<exists>k w'. notify_loop cls i w = Some (k, w')"
  using assms
proof (induction "length (observers (subj w)) - i" arbitrary: i w)
  case 0
  then have "\<not> i < length (observers (subj w))" by simp
  then show ?case by (simp add: notify_loop_done)
next
  case (Suc n)
  let ?r = "observers (subj w) ! i"
  from Suc.hyps(2) have lt: "i < length (observers (subj w))" by simp
  then have "?r \<in> set (observers (subj w))" by simp
  with Suc.prems have kl: "keeps_list cls ?r" and en: "call_update cls ?r w \<noteq> None"
    by blast+
  from en obtain k w1 where cu: "call_update cls ?r w = Some (k, w1)"
    by (cases "call_update cls ?r w") auto
  show ?case
  proof (cases k)
    case Returned
    from kl cu have same: "observers (subj w1) = observers (subj w)"
      unfolding keeps_list_def by blast
    have "n = length (observers (subj w1)) - Suc i"
      using Suc.hyps(2) same by simp
    moreover have "\<forall>r \<in> set (observers (subj w1)).
        keeps_list cls r \<and> (\<forall>v. call_update cls r v \<noteq> None)"
      using Suc.prems same by simp
    ultimately have "\<exists>k w'. notify_loop cls (Suc i) w1 = Some (k, w')"
      using Suc.hyps(1) by blast
    with lt cu Returned show ?thesis by (simp add: notify_loop_step)
  next
    case (Threw e)
    with lt cu show ?thesis by (simp add: notify_loop_throw)
  qed
qed

lemma notify_ends:
  assumes "\<forall>r \<in> set (observers (subj w)).
      keeps_list cls r \<and> (\<forall>v. call_update cls r v \<noteq> None)"
  shows "\<exists>k w'. notify cls w = Some (k, w')"
proof -
  let ?w0 = "console_log [Str ''Subject: Notifying observers...''] w"
  have s0: "subj ?w0 = subj w"
    by (simp add: console_log_def)
  from assms have "\<forall>r \<in> set (observers (subj ?w0)).
      keeps_list cls r \<and> (\<forall>v. call_update cls r v \<noteq> None)"
    by (simp add: s0)
  from notify_loop_ends [OF this, of 0] show ?thesis
    by (simp add: notify_def)
qed

subsection \<open>The observers of the examples\<close>

lemma count_list_distinct:
  "distinct xs \<Longrightarrow> count_list xs r = (if r \<in> set xs then 1 else 0)"
  by (induction xs) auto

lemma A_and_B_provided: "provided (A_and_B r)"
  by (simp add: A_and_B_def provided_def)

lemma outcome_Some:
  assumes "outcome r = Some (k, s, calls, ls)"
  shows "\<exists>w'. r = Some (k, w') \<and> subj w' = s \<and> invoked (out w') = calls \<and> console (out w') = ls"
  using assms by (auto simp: outcome_def split: option.splits)



lemma unsubscribe_state: "state (fst (snd (unsubscribe observer this))) = state this"
  by (simp add: unsubscribe_def Let_def)

lemma keeps_state_unsubscriber: "keeps_state unsubscriber_then_A"
  unfolding keeps_state_def
proof (intro allI impI)
  fix r v k v'
  assume a: "r \<in> set (observers (subj v)) \<and> call_update unsubscriber_then_A r v = Some (k, v')"
  show "state (subj v') = state (subj v)"
  proof (cases "r = 0")
    case True
    obtain c s ls where u: "unsubscribe 0 (subj v) = (c, s, ls)"
      by (cases "unsubscribe 0 (subj v)")
    with unsubscribe_state [of 0 "subj v"] have "state s = state (subj v)" by simp
    with a True u show ?thesis
      by (auto simp: call_update_def unsubscriber_then_A_def unsubscribing_observer_def)
  next
    case False
    then have "unsubscriber_then_A r = Provided ConcreteObserverA"
      by (simp add: unsubscriber_then_A_def)
    from a call_update_Provided [where cls = unsubscriber_then_A and r = r, OF this]
    show ?thesis by auto
  qed
qed

lemma keeps_list_setter: "keeps_list setter_then_A r"
proof (cases "r = 0")
  case True
  then show ?thesis
    by (auto simp: keeps_list_def call_update_def setter_then_A_def state_setting_observer_def)
next
  case False
  then have "provided (setter_then_A r)"
    by (simp add: setter_then_A_def provided_def)
  then show ?thesis by (rule provided_keeps_list)
qed

text \<open>
  While its flag is set, the re-entrant observer behaves as \<open>busy_table\<close> says, so the
  \<open>notify\<close> it calls is that of the subject with the observers as they are.
\<close>

lemma busy_call_update:
  assumes "is_busy 0 v"
  shows "call_update busy_table r v = call_update reentrant_then_A r v"
    and "\<forall>k v'. call_update busy_table r v = Some (k, v') \<longrightarrow>
      k = Returned \<and> is_busy 0 v' \<and> observers (subj v') = observers (subj v)"
proof -
  show "call_update busy_table r v = call_update reentrant_then_A r v"
    using assms
    by (simp add: call_update_def busy_table_def reentrant_then_A_def reentrant_observer_def
        is_busy_def Let_def)
  show "\<forall>k v'. call_update busy_table r v = Some (k, v') \<longrightarrow>
      k = Returned \<and> is_busy 0 v' \<and> observers (subj v') = observers (subj v)"
  proof (cases "r = 0")
    case True
    with assms show ?thesis
      by (simp add: call_update_def busy_table_def is_busy_def Let_def)
  next
    case False
    then have "busy_table r = Provided ConcreteObserverA"
      by (simp add: busy_table_def)
    from call_update_Provided [where cls = busy_table and r = r, OF this] assms
    show ?thesis by (simp add: is_busy_def)
  qed
qed

lemma busy_notify_loop:
  assumes "is_busy 0 v"
  shows "notify_loop busy_table i v = notify_loop reentrant_then_A i v"
  using assms
proof (induction "length (observers (subj v)) - i" arbitrary: i v)
  case 0
  then have "\<not> i < length (observers (subj v))" by simp
  then show ?case by (simp add: notify_loop_done)
next
  case (Suc n)
  let ?r = "observers (subj v) ! i"
  from Suc.hyps(2) have lt: "i < length (observers (subj v))" by simp
  have eq: "call_update busy_table ?r v = call_update reentrant_then_A ?r v"
    using Suc.prems by (rule busy_call_update(1))
  show ?case
  proof (cases "call_update busy_table ?r v")
    case None
    with eq lt show ?thesis by (simp add: notify_loop_None)
  next
    case (Some z)
    obtain k v1 where z: "z = (k, v1)" by (cases z)
    from busy_call_update(2) [OF Suc.prems, of ?r] Some z
    have k: "k = Returned" and b: "is_busy 0 v1"
      and same: "observers (subj v1) = observers (subj v)"
      by simp_all
    have "n = length (observers (subj v1)) - Suc i"
      using Suc.hyps(2) same by simp
    from Suc.hyps(1) [OF this b]
    have "notify_loop busy_table (Suc i) v1 = notify_loop reentrant_then_A (Suc i) v1" .
    moreover have "notify_loop busy_table i v = notify_loop busy_table (Suc i) v1"
      using lt Some z k by (simp add: notify_loop_step)
    moreover have "notify_loop reentrant_then_A i v = notify_loop reentrant_then_A (Suc i) v1"
      using lt Some z k eq by (simp add: notify_loop_step)
    ultimately show ?thesis by simp
  qed
qed

lemma reentrant_observer_calls_notify:
  "call_update reentrant_then_A 0 v =
     (if is_busy 0 v then Some (Returned, v\<lparr>out := out v @ [Invoke 0]\<rparr>)
      else (case notify reentrant_then_A (set_busy 0 1 (v\<lparr>out := out v @ [Invoke 0]\<rparr>)) of
              None \<Rightarrow> None
            | Some (Returned, w') \<Rightarrow> Some (Returned, set_busy 0 0 w')
            | Some (Threw e, w') \<Rightarrow> Some (Threw e, w')))"
proof -
  let ?v1 = "v\<lparr>out := out v @ [Invoke 0]\<rparr>"
  let ?v2 = "console_log [Str ''Subject: Notifying observers...''] (set_busy 0 1 ?v1)"
  have "is_busy 0 ?v2"
    by (simp add: is_busy_def set_busy_def console_log_def)
  then have "notify_loop busy_table 0 ?v2 = notify_loop reentrant_then_A 0 ?v2"
    by (rule busy_notify_loop)
  then have "notify busy_table (set_busy 0 1 ?v1) = notify reentrant_then_A (set_busy 0 1 ?v1)"
    by (simp add: notify_def)
  then show ?thesis
    by (simp add: call_update_def reentrant_then_A_def reentrant_observer_def Let_def is_busy_def)
qed

subsection \<open>Rounding\<close>

lemma round_to_even_exact: "round_to_even n 0 = n"
  by (simp add: round_to_even_def)

lemma round_to_even_bound:
  assumes "0 < s"
  shows "round_to_even n s * 2 ^ s \<le> n + 2 ^ (s - 1)"
proof -
  let ?q = "n div 2 ^ s" and ?r = "n mod 2 ^ s"
  have n: "n = ?q * 2 ^ s + ?r" using div_mult_mod_eq [of n "2 ^ s"] by simp
  have pow: "(2::nat) ^ s = 2 * 2 ^ (s - 1)"
    using assms by (cases s) simp_all
  show ?thesis
  proof (cases "2 * ?r < 2 ^ s")
    case True
    then have "round_to_even n s = ?q" by (simp add: round_to_even_def Let_def)
    then show ?thesis using n by (metis le_add1 trans_le_add1)
  next
    case False
    then have "round_to_even n s \<le> ?q + 1" by (simp add: round_to_even_def Let_def)
    then have "round_to_even n s * 2 ^ s \<le> (?q + 1) * 2 ^ s" by (rule mult_le_mono1)
    also have "\<dots> = ?q * 2 ^ s + 2 ^ s" by (simp add: algebra_simps)
    also have "\<dots> \<le> ?q * 2 ^ s + ?r + 2 ^ (s - 1)"
      using False pow by simp
    also have "\<dots> = n + 2 ^ (s - 1)" using n by simp
    finally show ?thesis .
  qed
qed

lemma round53_small: "n < 2 ^ 53 \<Longrightarrow> round53 n = n"
proof -
  assume "n < 2 ^ 53"
  then have "floorlog 2 n \<le> 53" by (simp add: floorlog_le_iff)
  then show ?thesis by (simp add: round53_def round_to_even_exact)
qed

lemma round53_bound:
  assumes "n < 2 ^ 57"
  shows "round53 n \<le> n + 8"
proof (cases "floorlog 2 n - 53 = 0")
  case True
  then show ?thesis by (simp add: round53_def round_to_even_exact)
next
  case False
  let ?s = "floorlog 2 n - 53"
  from assms have "floorlog 2 n \<le> 57" by (simp add: floorlog_le_iff)
  then have "?s - 1 \<le> 3" by simp
  then have "(2::nat) ^ (?s - 1) \<le> 2 ^ 3" by (rule power_increasing) simp
  moreover have "round_to_even n ?s * 2 ^ ?s \<le> n + 2 ^ (?s - 1)"
    using False by (intro round_to_even_bound) simp
  ultimately show ?thesis by (simp add: round53_def Let_def)
qed

lemma random_state_range:
  assumes "Math_random_result random"
  shows "0 \<le> Math_floor (times_nat random (10 + 1)) \<and> Math_floor (times_nat random (10 + 1)) \<le> 10"
proof -
  let ?m = "mantissa random" and ?e = "scale random"
  from assms have m53: "?m < 2 ^ 53" and m1: "?m < 2 ^ ?e"
    by (simp_all add: Math_random_result_def is_double_def)
  have "?m * 11 < 2 ^ 57" using m53 by simp
  then have "round53 (?m * 11) \<le> ?m * 11 + 8" by (rule round53_bound)
  also have "\<dots> < 11 * 2 ^ ?e" using m1 by simp
  finally have "round53 (?m * 11) div 2 ^ ?e < 11"
    by (simp add: less_mult_imp_div_less)
  then show ?thesis by (simp add: Math_floor_def times_nat_def)
qed

lemma round_to_even_ge: "n div 2 ^ s \<le> round_to_even n s"
  by (simp add: round_to_even_def Let_def)

lemma round53_ge_multiple:
  assumes "c * 2 ^ (floorlog 2 n - 53) \<le> n"
  shows "c * 2 ^ (floorlog 2 n - 53) \<le> round53 n"
proof -
  let ?s = "floorlog 2 n - 53"
  have "c \<le> n div 2 ^ ?s"
    using assms by (simp add: less_eq_div_iff_mult_less_eq)
  also have "\<dots> \<le> round_to_even n ?s" by (rule round_to_even_ge)
  finally have "c * 2 ^ ?s \<le> round_to_even n ?s * 2 ^ ?s" by (rule mult_le_mono1)
  then show ?thesis by (simp add: round53_def Let_def)
qed

lemma round53_ge:
  assumes "k * 2 ^ e \<le> n" and "n < 2 ^ 57" and "n < 2 ^ 53 \<or> 4 \<le> e"
  shows "k * 2 ^ e \<le> round53 n"
proof (cases "n < 2 ^ 53")
  case True
  then show ?thesis using assms(1) by (simp add: round53_small)
next
  case False
  let ?s = "floorlog 2 n - 53"
  from assms(2) have "floorlog 2 n \<le> 57" by (simp add: floorlog_le_iff)
  then have "?s \<le> 4" by simp
  with False assms(3) have "?s \<le> e" by simp
  then have "(2::nat) ^ e = 2 ^ (e - ?s) * 2 ^ ?s"
    by (simp add: power_add [symmetric])
  then have eq: "k * 2 ^ e = (k * 2 ^ (e - ?s)) * 2 ^ ?s" by simp
  from assms(1) have "(k * 2 ^ (e - ?s)) * 2 ^ ?s \<le> n" by (simp only: eq)
  then have "(k * 2 ^ (e - ?s)) * 2 ^ ?s \<le> round53 n" by (rule round53_ge_multiple)
  then show ?thesis by (simp only: eq)
qed

lemma random_scale_large:
  assumes "m < 2 ^ e" and "\<not> m * 11 < (2::nat) ^ 53"
  shows "4 \<le> e"
proof (rule ccontr)
  assume "\<not> 4 \<le> e"
  then have "e \<le> 3" by simp
  then have "(2::nat) ^ e \<le> 2 ^ 3" by (rule power_increasing) simp
  with assms(1) have "m < 8" by simp
  then have "m * 11 < 2 ^ 53" by simp
  with assms(2) show False by simp
qed

lemma random_state_bins:
  assumes "Math_random_result random"
  shows "(int k = Math_floor (times_nat random (10 + 1)) \<longrightarrow>
            k * 2 ^ scale random \<le> mantissa random * 11 + 8
            \<and> mantissa random * 11 < (k + 1) * 2 ^ scale random)
       \<and> (k * 2 ^ scale random \<le> mantissa random * 11
            \<and> mantissa random * 11 + 8 < (k + 1) * 2 ^ scale random \<longrightarrow>
          Math_floor (times_nat random (10 + 1)) = int k)"
proof -
  let ?m = "mantissa random" and ?e = "scale random"
  let ?p = "round53 (?m * 11)"
  from assms have m53: "?m < 2 ^ 53" and m1: "?m < 2 ^ ?e"
    by (simp_all add: Math_random_result_def is_double_def)
  have p57: "?m * 11 < 2 ^ 57" using m53 by simp
  have up: "?p \<le> ?m * 11 + 8" using p57 by (rule round53_bound)
  have sc: "?m * 11 < 2 ^ 53 \<or> 4 \<le> ?e"
    using random_scale_large [OF m1] by blast
  have fl: "Math_floor (times_nat random (10 + 1)) = int (?p div 2 ^ ?e)"
    by (simp add: Math_floor_def times_nat_def)
  have lo: "?p div 2 ^ ?e * 2 ^ ?e \<le> ?m * 11 + 8"
  proof -
    have "?p div 2 ^ ?e * 2 ^ ?e \<le> ?p" by simp
    then show ?thesis using up by (rule order_trans)
  qed
  have hi: "?m * 11 < (?p div 2 ^ ?e + 1) * 2 ^ ?e"
  proof (rule ccontr)
    assume "\<not> ?m * 11 < (?p div 2 ^ ?e + 1) * 2 ^ ?e"
    then have "(?p div 2 ^ ?e + 1) * 2 ^ ?e \<le> ?m * 11" by simp
    then have "(?p div 2 ^ ?e + 1) * 2 ^ ?e \<le> ?p"
      using p57 sc by (rule round53_ge)
    then have "?p div 2 ^ ?e + 1 \<le> ?p div 2 ^ ?e"
      by (simp add: less_eq_div_iff_mult_less_eq)
    then show False by simp
  qed
  have one: "int k = Math_floor (times_nat random (10 + 1)) \<longrightarrow>
            k * 2 ^ ?e \<le> ?m * 11 + 8 \<and> ?m * 11 < (k + 1) * 2 ^ ?e"
  proof
    assume "int k = Math_floor (times_nat random (10 + 1))"
    with fl have "k = ?p div 2 ^ ?e" by simp
    with lo hi show "k * 2 ^ ?e \<le> ?m * 11 + 8 \<and> ?m * 11 < (k + 1) * 2 ^ ?e" by simp
  qed
  have two: "Math_floor (times_nat random (10 + 1)) = int k"
    if a: "k * 2 ^ ?e \<le> ?m * 11" and b: "?m * 11 + 8 < (k + 1) * 2 ^ ?e"
  proof -
    from a have "k * 2 ^ ?e \<le> ?p" using p57 sc by (rule round53_ge)
    then have "k \<le> ?p div 2 ^ ?e" by (simp add: less_eq_div_iff_mult_less_eq)
    moreover from up b have "?p < (k + 1) * 2 ^ ?e" by simp
    then have "?p div 2 ^ ?e < k + 1" by (simp add: less_mult_imp_div_less)
    ultimately have "?p div 2 ^ ?e = k" by simp
    with fl show ?thesis by simp
  qed
  from one two show ?thesis by blast
qed

subsection \<open>Notifying\<close>

text \<open>
  Claim C1, as amended. If the \<open>update\<close> of every subscribed observer, whenever
  called, returns normally, leaves the subscriber sequence as it was and itself leads
  to no further call of \<open>update\<close>, then \<open>notify\<close> returns normally with the same
  subscriber sequence, and the calls of \<open>update\<close> made during it are exactly the
  entries of the subscriber sequence, in subscription order: no other observer is
  called, and with a sequence without duplicates every subscribed observer is called
  exactly once. The observers of the two classes of the file are of this kind: a call
  of their \<open>update\<close> is \<open>update\<close> of the class on the subject itself, and all it leaves
  are its mark and the lines it logged.
\<close>

theorem notify_invokes_subscribers_in_order:
  assumes "\<forall>r \<in> set (observers (subj w)). returns_quietly cls r"
  shows "(\<exists>w' calls. notify cls w = Some (Returned, w')
      \<and> observers (subj w') = observers (subj w)
      \<and> invoked (out w') = invoked (out w) @ calls
      \<and> calls = observers (subj w)
      \<and> (distinct (observers (subj w)) \<longrightarrow>
           (\<forall>r. count_list calls r = (if r \<in> set (observers (subj w)) then 1 else 0))))
    \<and> (provided (cls r) \<longrightarrow> returns_quietly cls r)
    \<and> (cls r = Provided c \<longrightarrow>
         call_update cls r v =
           Some (Returned,
             v\<lparr>out := out v @ Invoke r #
                map Console (snd (snd (snd (update c (objs v r) (subj v)))))\<rparr>))"
proof -
  from notify_quiet [OF assms] obtain w' where run:
    "notify cls w = Some (Returned, w')"
    "observers (subj w') = observers (subj w)"
    "invoked (out w') = invoked (out w) @ observers (subj w)"
    by blast
  have "distinct (observers (subj w)) \<longrightarrow>
      (\<forall>r. count_list (observers (subj w)) r = (if r \<in> set (observers (subj w)) then 1 else 0))"
    by (simp add: count_list_distinct)
  with run have "\<exists>w' calls. notify cls w = Some (Returned, w')
      \<and> observers (subj w') = observers (subj w)
      \<and> invoked (out w') = invoked (out w) @ calls
      \<and> calls = observers (subj w)
      \<and> (distinct (observers (subj w)) \<longrightarrow>
           (\<forall>r. count_list calls r = (if r \<in> set (observers (subj w)) then 1 else 0)))"
    by blast
  moreover have "provided (cls r) \<longrightarrow> returns_quietly cls r"
    by (simp add: provided_returns_quietly)
  moreover have "cls r = Provided c \<longrightarrow>
         call_update cls r v =
           Some (Returned,
             v\<lparr>out := out v @ Invoke r #
                map Console (snd (snd (snd (update c (objs v r) (subj v)))))\<rparr>)"
    by (simp add: call_update_Provided)
  ultimately show ?thesis by blast
qed

theorem notify_invokes_subscribers_in_order_witness:
  "returns_quietly A_and_B 1 \<and> returns_quietly A_and_B 2
   \<and> (\<exists>w' calls. notify A_and_B (world_of \<lparr>state = 3, observers = [1, 2]\<rparr>) = Some (Returned, w')
         \<and> invoked (out w') = calls \<and> calls = [1, 2]
         \<and> count_list calls 1 = 1 \<and> count_list calls 2 = 1 \<and> count_list calls 3 = 0)
   \<and> outcome (notify A_and_B (world_of \<lparr>state = 3, observers = [1, 2]\<rparr>)) =
       Some (Returned, \<lparr>state = 3, observers = [1, 2]\<rparr>, [1, 2],
         [[Str ''Subject: Notifying observers...''],
          [Str ''ConcreteObserverA: Reacted to the event. New value: '', Num 3]])"
proof -
  let ?w = "world_of \<lparr>state = 3, observers = [1, 2]\<rparr>"
  have q: "returns_quietly A_and_B 1" "returns_quietly A_and_B 2"
    by (simp_all add: provided_returns_quietly A_and_B_provided)
  then have h: "\<forall>r \<in> set (observers (subj ?w)). returns_quietly A_and_B r"
    by (simp add: world_of_def)
  have d: "distinct (observers (subj ?w))"
    by (simp add: world_of_def)
  from notify_invokes_subscribers_in_order [OF h] d obtain w' calls where run:
    "notify A_and_B ?w = Some (Returned, w')"
    "invoked (out w') = invoked (out ?w) @ calls"
    "calls = observers (subj ?w)"
    "\<forall>r. count_list calls r = (if r \<in> set (observers (subj ?w)) then 1 else 0)"
    by blast
  from run(4) have "count_list calls 1 = 1 \<and> count_list calls 2 = 1 \<and> count_list calls 3 = 0"
    by (simp add: world_of_def)
  with run(1,2,3) have called:
    "\<exists>w' calls. notify A_and_B ?w = Some (Returned, w')
         \<and> invoked (out w') = calls \<and> calls = [1, 2]
         \<and> count_list calls 1 = 1 \<and> count_list calls 2 = 1 \<and> count_list calls 3 = 0"
    by (simp add: world_of_def)
  have "outcome (notify A_and_B ?w) =
       Some (Returned, \<lparr>state = 3, observers = [1, 2]\<rparr>, [1, 2],
         [[Str ''Subject: Notifying observers...''],
          [Str ''ConcreteObserverA: Reacted to the event. New value: '', Num 3]])"
    by code_simp
  with q called show ?thesis by blast
qed

text \<open>
  The claim as stated, for every list of subscribed observers, fails in three ways,
  each with the sequence \<open>[0, 1]\<close>, observer 1 a \<open>ConcreteObserverA\<close> and the state 3.
  An observer 0 whose \<open>update\<close> unsubscribes it shortens the array under the iterator:
  \<open>notify\<close> returns normally having called observer 0 only, and observer 1,
  subscribed before and after, is not called. An observer 0 whose \<open>update\<close> throws
  ends \<open>notify\<close> by that exception before observer 1 is called. An observer 0 whose
  \<open>update\<close> calls \<open>notify\<close> of the subject (once, behind a flag) returns normally and
  does not touch the sequence, and during the one \<open>notify\<close> of the client \<open>update\<close>
  runs on 0, 0, 1, 1: every observer is called twice.
\<close>

theorem notify_skips_subscribed_observer:
  "outcome (notify unsubscriber_then_A (world_of \<lparr>state = 3, observers = [0, 1]\<rparr>)) =
     Some (Returned, \<lparr>state = 3, observers = [1]\<rparr>, [0],
       [[Str ''Subject: Notifying observers...''], [Str ''Subject: Unsubscribed an observer.'']])
   \<and> outcome (notify thrower_then_A (world_of \<lparr>state = 3, observers = [0, 1]\<rparr>)) =
     Some (Threw ''failure'', \<lparr>state = 3, observers = [0, 1]\<rparr>, [0],
       [[Str ''Subject: Notifying observers...'']])
   \<and> outcome (notify reentrant_then_A (world_of \<lparr>state = 3, observers = [0, 1]\<rparr>)) =
     Some (Returned, \<lparr>state = 3, observers = [0, 1]\<rparr>, [0, 0, 1, 1],
       [[Str ''Subject: Notifying observers...''],
        [Str ''Subject: Notifying observers...''],
        [Str ''ConcreteObserverA: Reacted to the event. New value: '', Num 3],
        [Str ''ConcreteObserverA: Reacted to the event. New value: '', Num 3]])"
  by code_simp

subsection \<open>The business logic\<close>

lemma someBusinessLogic_unfold:
  "someBusinessLogic cls random w =
     notify cls
       (w\<lparr>subj := (subj w)\<lparr>state := Math_floor (times_nat random (10 + 1))\<rparr>,
        out := out w @
          [Console [Str (CHR 0x0A # ''Subject: I'm doing something important.'')],
           Console [Str ''Subject: My state has just changed to: '',
                    Num (Math_floor (times_nat random (10 + 1)))]]\<rparr>)"
  by (simp add: someBusinessLogic_def console_log_def Let_def)

text \<open>
  Claim C6. For every result of \<open>Math.random()\<close>, a double \<open>m / 2^e\<close> in \<open>[0, 1)\<close>,
  \<open>someBusinessLogic\<close> logs its line, sets the state to
  \<open>Math.floor(random * (10 + 1))\<close>, logs the new state and then is \<open>notify\<close> on that
  subject. The new state is an integer from 0 to 10. It is the number \<open>k\<close> of the
  interval \<open>[k/11, (k+1)/11)\<close> that holds the draw, eleven intervals of the same
  width, up to the rounding of the product (which moves \<open>11 * m\<close> by at most 8):
  a state \<open>k\<close> comes from a draw with \<open>k * 2^e - 8 \<le> 11 * m < (k + 1) * 2^e\<close>, and
  every draw with \<open>k * 2^e \<le> 11 * m < (k + 1) * 2^e - 8\<close> gives \<open>k\<close>. Every state from 0
  to 10 is the result of some draw. How the draw itself is distributed is the
  contract of \<open>Math.random\<close>, not of this program.
\<close>

theorem someBusinessLogic_draws_state_then_notifies:
  assumes "Math_random_result random"
  shows "0 \<le> Math_floor (times_nat random (10 + 1))
    \<and> Math_floor (times_nat random (10 + 1)) \<le> 10
    \<and> (int k = Math_floor (times_nat random (10 + 1)) \<longrightarrow>
          k * 2 ^ scale random \<le> mantissa random * 11 + 8
          \<and> mantissa random * 11 < (k + 1) * 2 ^ scale random)
    \<and> (k * 2 ^ scale random \<le> mantissa random * 11
          \<and> mantissa random * 11 + 8 < (k + 1) * 2 ^ scale random \<longrightarrow>
        Math_floor (times_nat random (10 + 1)) = int k)
    \<and> (j \<le> 10 \<longrightarrow>
          Math_random_result \<lparr>mantissa = 24 * j, scale = 8\<rparr>
          \<and> Math_floor (times_nat \<lparr>mantissa = 24 * j, scale = 8\<rparr> (10 + 1)) = int j)
    \<and> someBusinessLogic cls random w =
        notify cls
          (w\<lparr>subj := (subj w)\<lparr>state := Math_floor (times_nat random (10 + 1))\<rparr>,
             out := out w @
               [Console [Str (CHR 0x0A # ''Subject: I'm doing something important.'')],
                Console [Str ''Subject: My state has just changed to: '',
                         Num (Math_floor (times_nat random (10 + 1)))]]\<rparr>)"
proof -
  have range: "0 \<le> Math_floor (times_nat random (10 + 1))
      \<and> Math_floor (times_nat random (10 + 1)) \<le> 10"
    using assms by (rule random_state_range)
  have attained: "Math_random_result \<lparr>mantissa = 24 * j, scale = 8\<rparr>
      \<and> Math_floor (times_nat \<lparr>mantissa = 24 * j, scale = 8\<rparr> (10 + 1)) = int j"
    if "j \<le> 10"
  proof -
    from that have d: "Math_random_result \<lparr>mantissa = 24 * j, scale = 8\<rparr>"
      by (simp add: Math_random_result_def is_double_def)
    from that have "j * 2 ^ scale \<lparr>mantissa = 24 * j, scale = 8\<rparr>
          \<le> mantissa \<lparr>mantissa = 24 * j, scale = 8\<rparr> * 11
        \<and> mantissa \<lparr>mantissa = 24 * j, scale = 8\<rparr> * 11 + 8
          < (j + 1) * 2 ^ scale \<lparr>mantissa = 24 * j, scale = 8\<rparr>"
      by simp
    with random_state_bins [OF d, of j] d show ?thesis by blast
  qed
  from range random_state_bins [OF assms, of k] attained show ?thesis
    by (simp only: someBusinessLogic_unfold) blast
qed

theorem someBusinessLogic_draws_state_then_notifies_witness:
  "Math_random_result \<lparr>mantissa = 15, scale = 4\<rparr>
   \<and> Math_floor (times_nat \<lparr>mantissa = 15, scale = 4\<rparr> (10 + 1)) = 10
   \<and> outcome (someBusinessLogic A_and_B \<lparr>mantissa = 15, scale = 4\<rparr>
        (world_of \<lparr>state = 0, observers = [1, 2]\<rparr>)) =
       Some (Returned, \<lparr>state = 10, observers = [1, 2]\<rparr>, [1, 2],
         [[Str (CHR 0x0A # ''Subject: I'm doing something important.'')],
          [Str ''Subject: My state has just changed to: '', Num 10],
          [Str ''Subject: Notifying observers...''],
          [Str ''ConcreteObserverB: Reacted to the event. New value: '', Num 10]])"
proof -
  let ?d = "\<lparr>mantissa = 15, scale = 4\<rparr>"
  have d: "Math_random_result ?d"
    by (simp add: Math_random_result_def is_double_def)
  have "(10::nat) * 2 ^ scale ?d \<le> mantissa ?d * 11
      \<and> mantissa ?d * 11 + 8 < (10 + 1) * 2 ^ scale ?d"
    by simp
  with someBusinessLogic_draws_state_then_notifies [OF d, of 10]
  have v: "Math_floor (times_nat ?d (10 + 1)) = 10" by simp
  have "outcome (someBusinessLogic A_and_B ?d (world_of \<lparr>state = 0, observers = [1, 2]\<rparr>)) =
       Some (Returned, \<lparr>state = 10, observers = [1, 2]\<rparr>, [1, 2],
         [[Str (CHR 0x0A # ''Subject: I'm doing something important.'')],
          [Str ''Subject: My state has just changed to: '', Num 10],
          [Str ''Subject: Notifying observers...''],
          [Str ''ConcreteObserverB: Reacted to the event. New value: '', Num 10]])"
    by code_simp
  with d v show ?thesis by simp
qed


subsection \<open>Normal completion\<close>

text \<open>
  Claim C8, as amended. \<open>subscribe\<close> and \<open>unsubscribe\<close> return normally for every
  observer and every subject; the duplicate subscription and the unknown
  unsubscription are reported by a console line only, the subject unchanged. With
  subscribed observers of the two classes of the file, \<open>notify\<close> and
  \<open>someBusinessLogic\<close> (for any draw) end, and end by returning. For any observers,
  \<open>someBusinessLogic\<close> returns normally exactly when the \<open>notify\<close> it ends with does.
\<close>

theorem operations_return_normally:
  "fst (subscribe observer this) = Returned
   \<and> fst (unsubscribe observer this) = Returned
   \<and> (observer \<in> set (observers this) \<longrightarrow>
        subscribe observer this =
          (Returned, this, [[Str ''Subject: Observer has been Subscribed already.'']]))
   \<and> (observer \<notin> set (observers this) \<longrightarrow>
        unsubscribe observer this = (Returned, this, [[Str ''Subject: Nonexistent observer.'']]))
   \<and> ((\<forall>r \<in> set (observers (subj w)). provided (cls r)) \<longrightarrow>
        (\<exists>w'. notify cls w = Some (Returned, w'))
        \<and> (\<exists>w'. someBusinessLogic cls random w = Some (Returned, w')))
   \<and> (\<exists>w'. someBusinessLogic cls random w = Some (Returned, w')) =
       (\<exists>w'. notify cls
          (w\<lparr>subj := (subj w)\<lparr>state := Math_floor (times_nat random (10 + 1))\<rparr>,
             out := out w @
               [Console [Str (CHR 0x0A # ''Subject: I'm doing something important.'')],
                Console [Str ''Subject: My state has just changed to: '',
                         Num (Math_floor (times_nat random (10 + 1)))]]\<rparr>) = Some (Returned, w'))"
proof -
  let ?w3 = "(w\<lparr>subj := (subj w)\<lparr>state := Math_floor (times_nat random (10 + 1))\<rparr>,
        out := out w @
          [Console [Str (CHR 0x0A # ''Subject: I'm doing something important.'')],
           Console [Str ''Subject: My state has just changed to: '',
                    Num (Math_floor (times_nat random (10 + 1)))]]\<rparr>)"
  have "fst (subscribe observer this) = Returned"
    by (simp add: subscribe_def Let_def)
  moreover have "fst (unsubscribe observer this) = Returned"
    by (simp add: unsubscribe_def Let_def)
  moreover have "observer \<in> set (observers this) \<longrightarrow>
        subscribe observer this =
          (Returned, this, [[Str ''Subject: Observer has been Subscribed already.'']])"
    by (simp add: subscribe_present)
  moreover have "observer \<notin> set (observers this) \<longrightarrow>
        unsubscribe observer this = (Returned, this, [[Str ''Subject: Nonexistent observer.'']])"
    by (simp add: unsubscribe_def indexOf_absent)
  moreover have "\<exists>w'. notify cls w = Some (Returned, w')"
    and "\<exists>w'. someBusinessLogic cls random w = Some (Returned, w')"
    if p: "\<forall>r \<in> set (observers (subj w)). provided (cls r)"
  proof -
    from notify_provided [OF p] show "\<exists>w'. notify cls w = Some (Returned, w')"
      by blast
    from p have "\<forall>r \<in> set (observers (subj ?w3)). provided (cls r)"
      by simp
    from notify_provided [OF this]
    show "\<exists>w'. someBusinessLogic cls random w = Some (Returned, w')"
      by (simp only: someBusinessLogic_unfold) blast
  qed
  moreover have "(\<exists>w'. someBusinessLogic cls random w = Some (Returned, w')) =
       (\<exists>w'. notify cls ?w3 = Some (Returned, w'))"
    by (simp only: someBusinessLogic_unfold)
  ultimately show ?thesis by blast
qed

theorem operations_return_normally_witness:
  "provided (A_and_B 1) \<and> provided (A_and_B 2)
   \<and> subscribe 1 \<lparr>state = 0, observers = [1, 2]\<rparr> =
       (Returned, \<lparr>state = 0, observers = [1, 2]\<rparr>,
        [[Str ''Subject: Observer has been Subscribed already.'']])
   \<and> unsubscribe 3 \<lparr>state = 0, observers = [1, 2]\<rparr> =
       (Returned, \<lparr>state = 0, observers = [1, 2]\<rparr>, [[Str ''Subject: Nonexistent observer.'']])
   \<and> (\<exists>w'. notify A_and_B (world_of \<lparr>state = 0, observers = [1, 2]\<rparr>) = Some (Returned, w'))
   \<and> (\<exists>w'. someBusinessLogic A_and_B \<lparr>mantissa = 3, scale = 2\<rparr>
              (world_of \<lparr>state = 0, observers = [1, 2]\<rparr>) = Some (Returned, w'))"
proof -
  let ?s = "\<lparr>state = 0, observers = [1, 2]\<rparr>"
  have p: "provided (A_and_B 1)" "provided (A_and_B 2)"
    by (simp_all add: A_and_B_provided)
  then have h: "\<forall>r \<in> set (observers (subj (world_of ?s))). provided (A_and_B r)"
    by (simp add: world_of_def)
  have a: "(1::nat) \<in> set (observers ?s)" and b: "(3::nat) \<notin> set (observers ?s)"
    by simp_all
  from operations_return_normally [of 1 ?s "world_of ?s" A_and_B] a
  have "subscribe 1 ?s = (Returned, ?s, [[Str ''Subject: Observer has been Subscribed already.'']])"
    by blast
  moreover from operations_return_normally [of 3 ?s "world_of ?s" A_and_B] b
  have "unsubscribe 3 ?s = (Returned, ?s, [[Str ''Subject: Nonexistent observer.'']])"
    by blast
  moreover from operations_return_normally [of 1 ?s "world_of ?s" A_and_B "\<lparr>mantissa = 3, scale = 2\<rparr>"] h
  have "(\<exists>w'. notify A_and_B (world_of ?s) = Some (Returned, w'))
     \<and> (\<exists>w'. someBusinessLogic A_and_B \<lparr>mantissa = 3, scale = 2\<rparr> (world_of ?s) = Some (Returned, w'))"
    by blast
  ultimately show ?thesis using p by blast
qed

text \<open>
  The claim as stated, with \<open>someBusinessLogic\<close> for every subject, fails:
  \<open>someBusinessLogic\<close> ends with \<open>notify\<close>, and with a subscribed observer whose \<open>update\<close>
  throws it is ended by that exception, after the state was set.
\<close>

theorem someBusinessLogic_aborts:
  "outcome (someBusinessLogic thrower_then_A \<lparr>mantissa = 1, scale = 1\<rparr>
      (world_of \<lparr>state = 3, observers = [0, 1]\<rparr>)) =
     Some (Threw ''failure'', \<lparr>state = 5, observers = [0, 1]\<rparr>, [0],
       [[Str (CHR 0x0A # ''Subject: I'm doing something important.'')],
        [Str ''Subject: My state has just changed to: '', Num 5],
        [Str ''Subject: Notifying observers...'']])"
  by code_simp

subsection \<open>What the operations leave alone\<close>

text \<open>
  Claim C10, as amended. \<open>subscribe\<close> and \<open>unsubscribe\<close> never change the state. When
  \<open>notify\<close> ends, the state is what it was, provided no \<open>update\<close> of an observer
  subscribed at the time of its call changes the state (it may change the subscriber
  sequence). When \<open>someBusinessLogic\<close> ends, the subscriber sequence is what it was,
  provided no \<open>update\<close> of a subscribed observer changes the subscriber sequence (it
  may change the state). Both operations end when the \<open>update\<close> of every subscribed
  observer ends and keeps the subscriber sequence. With subscribed observers of the
  two classes of the file both return normally, \<open>notify\<close> with the subject as it was
  and \<open>someBusinessLogic\<close> with the subscriber sequence as it was.
\<close>

theorem subject_frame:
  "state (fst (snd (subscribe observer this))) = state this
   \<and> state (fst (snd (unsubscribe observer this))) = state this
   \<and> (keeps_state cls \<longrightarrow>
        (\<forall>k w'. notify cls w = Some (k, w') \<longrightarrow> state (subj w') = state (subj w)))
   \<and> ((\<forall>r \<in> set (observers (subj w)). keeps_list cls r) \<longrightarrow>
        (\<forall>k w'. someBusinessLogic cls random w = Some (k, w') \<longrightarrow>
           observers (subj w') = observers (subj w)))
   \<and> ((\<forall>r \<in> set (observers (subj w)).
          keeps_list cls r \<and> (\<forall>v. call_update cls r v \<noteq> None)) \<longrightarrow>
        (\<exists>k w'. notify cls w = Some (k, w'))
        \<and> (\<exists>k w'. someBusinessLogic cls random w = Some (k, w')))
   \<and> ((\<forall>r \<in> set (observers (subj w)). provided (cls r)) \<longrightarrow>
        (\<exists>w'. notify cls w = Some (Returned, w') \<and> subj w' = subj w)
        \<and> (\<exists>w'. someBusinessLogic cls random w = Some (Returned, w')
              \<and> observers (subj w') = observers (subj w)))"
proof -
  let ?w3 = "(w\<lparr>subj := (subj w)\<lparr>state := Math_floor (times_nat random (10 + 1))\<rparr>,
        out := out w @
          [Console [Str (CHR 0x0A # ''Subject: I'm doing something important.'')],
           Console [Str ''Subject: My state has just changed to: '',
                    Num (Math_floor (times_nat random (10 + 1)))]]\<rparr>)"
  have "state (fst (snd (subscribe observer this))) = state this"
    by (simp add: subscribe_def Let_def)
  moreover have "state (fst (snd (unsubscribe observer this))) = state this"
    by (rule unsubscribe_state)
  moreover have "keeps_state cls \<longrightarrow>
        (\<forall>k w'. notify cls w = Some (k, w') \<longrightarrow> state (subj w') = state (subj w))"
    using notify_keeps_state by blast
  moreover have "observers (subj w') = observers (subj w)"
    if l: "\<forall>r \<in> set (observers (subj w)). keeps_list cls r"
      and run: "someBusinessLogic cls random w = Some (k, w')" for k w'
  proof -
    from l have "\<forall>r \<in> set (observers (subj ?w3)). keeps_list cls r"
      by simp
    moreover from run have "notify cls ?w3 = Some (k, w')"
      by (simp only: someBusinessLogic_unfold)
    ultimately have "observers (subj w') = observers (subj ?w3)"
      by (rule notify_keeps_list)
    then show ?thesis by simp
  qed
  moreover have "\<exists>k w'. notify cls w = Some (k, w')"
    and "\<exists>k w'. someBusinessLogic cls random w = Some (k, w')"
    if e: "\<forall>r \<in> set (observers (subj w)).
      keeps_list cls r \<and> (\<forall>v. call_update cls r v \<noteq> None)"
  proof -
    from e show "\<exists>k w'. notify cls w = Some (k, w')"
      by (rule notify_ends)
    from e have "\<forall>r \<in> set (observers (subj ?w3)).
        keeps_list cls r \<and> (\<forall>v. call_update cls r v \<noteq> None)"
      by simp
    then have "\<exists>k w'. notify cls ?w3 = Some (k, w')"
      by (rule notify_ends)
    then show "\<exists>k w'. someBusinessLogic cls random w = Some (k, w')"
      by (simp only: someBusinessLogic_unfold)
  qed
  moreover have "\<exists>w'. notify cls w = Some (Returned, w') \<and> subj w' = subj w"
    and "\<exists>w'. someBusinessLogic cls random w = Some (Returned, w')
              \<and> observers (subj w') = observers (subj w)"
    if p: "\<forall>r \<in> set (observers (subj w)). provided (cls r)"
  proof -
    from notify_provided [OF p]
    show "\<exists>w'. notify cls w = Some (Returned, w') \<and> subj w' = subj w"
      by blast
    from p have "\<forall>r \<in> set (observers (subj ?w3)). provided (cls r)"
      by simp
    from notify_provided [OF this] obtain w' where
      "notify cls ?w3 = Some (Returned, w')" "subj w' = subj ?w3"
      by blast
    then have "someBusinessLogic cls random w = Some (Returned, w')
        \<and> observers (subj w') = observers (subj w)"
      by (simp add: someBusinessLogic_unfold)
    then show "\<exists>w'. someBusinessLogic cls random w = Some (Returned, w')
              \<and> observers (subj w') = observers (subj w)"
      by blast
  qed
  ultimately show ?thesis by blast
qed

text \<open>
  An instance with observers that are not of the classes of the file: the observer
  that unsubscribes itself changes the subscriber sequence and not the state, so
  \<open>notify\<close> ends with the state 3 it started with; the observer that sets the state
  changes the state and not the subscriber sequence, so \<open>someBusinessLogic\<close> ends with
  the sequence \<open>[0, 1]\<close> it started with.
\<close>

theorem subject_frame_witness:
  "keeps_state unsubscriber_then_A
   \<and> (\<exists>k w'. notify unsubscriber_then_A (world_of \<lparr>state = 3, observers = [0, 1]\<rparr>) = Some (k, w')
         \<and> state (subj w') = 3 \<and> observers (subj w') = [1])
   \<and> keeps_list setter_then_A 0 \<and> keeps_list setter_then_A 1
   \<and> (\<exists>k w'. someBusinessLogic setter_then_A \<lparr>mantissa = 3, scale = 2\<rparr>
                (world_of \<lparr>state = 3, observers = [0, 1]\<rparr>) = Some (k, w')
         \<and> observers (subj w') = [0, 1] \<and> state (subj w') = 42)
   \<and> provided (A_and_B 1) \<and> provided (A_and_B 2)
   \<and> (\<exists>w'. notify A_and_B (world_of \<lparr>state = 8, observers = [1, 2]\<rparr>) = Some (Returned, w')
         \<and> subj w' = \<lparr>state = 8, observers = [1, 2]\<rparr>)
   \<and> state (fst (snd (subscribe 3 \<lparr>state = 8, observers = [1, 2]\<rparr>))) = 8
   \<and> state (fst (snd (unsubscribe 1 \<lparr>state = 8, observers = [1, 2]\<rparr>))) = 8"
proof -
  let ?u = "world_of \<lparr>state = 3, observers = [0, 1]\<rparr>"
  let ?s = "\<lparr>state = 8, observers = [1, 2]\<rparr>"
  let ?d = "\<lparr>mantissa = 3, scale = 2\<rparr>"
  have ks: "keeps_state unsubscriber_then_A"
    by (rule keeps_state_unsubscriber)
  have "outcome (notify unsubscriber_then_A ?u) =
     Some (Returned, \<lparr>state = 3, observers = [1]\<rparr>, [0],
       [[Str ''Subject: Notifying observers...''], [Str ''Subject: Unsubscribed an observer.'']])"
    by code_simp
  then obtain w1 where w1: "notify unsubscriber_then_A ?u = Some (Returned, w1)"
    "subj w1 = \<lparr>state = 3, observers = [1]\<rparr>"
    by (auto dest: outcome_Some)
  from subject_frame [of 3 ?s unsubscriber_then_A ?u ?d] ks w1(1)
  have "state (subj w1) = state (subj ?u)" by blast
  with w1 have one: "\<exists>k w'. notify unsubscriber_then_A ?u = Some (k, w')
         \<and> state (subj w') = 3 \<and> observers (subj w') = [1]"
    by (simp add: world_of_def)
  have kl: "keeps_list setter_then_A 0" "keeps_list setter_then_A 1"
    by (rule keeps_list_setter)+
  then have h: "\<forall>r \<in> set (observers (subj ?u)). keeps_list setter_then_A r"
    by (simp add: world_of_def)
  have "outcome (someBusinessLogic setter_then_A ?d ?u) =
     Some (Returned, \<lparr>state = 42, observers = [0, 1]\<rparr>, [0, 1],
       [[Str (CHR 0x0A # ''Subject: I'm doing something important.'')],
        [Str ''Subject: My state has just changed to: '', Num 8],
        [Str ''Subject: Notifying observers...'']])"
    by code_simp
  then obtain w2 where w2: "someBusinessLogic setter_then_A ?d ?u = Some (Returned, w2)"
    "subj w2 = \<lparr>state = 42, observers = [0, 1]\<rparr>"
    by (auto dest: outcome_Some)
  from subject_frame [of 3 ?s setter_then_A ?u ?d] h w2(1)
  have "observers (subj w2) = observers (subj ?u)" by blast
  with w2 have two: "\<exists>k w'. someBusinessLogic setter_then_A ?d ?u = Some (k, w')
         \<and> observers (subj w') = [0, 1] \<and> state (subj w') = 42"
    by (simp add: world_of_def)
  have p: "provided (A_and_B 1)" "provided (A_and_B 2)"
    by (simp_all add: A_and_B_provided)
  then have hp: "\<forall>r \<in> set (observers (subj (world_of ?s))). provided (A_and_B r)"
    by (simp add: world_of_def)
  from subject_frame [of 3 ?s A_and_B "world_of ?s" ?d] hp
  have "\<exists>w'. notify A_and_B (world_of ?s) = Some (Returned, w') \<and> subj w' = subj (world_of ?s)"
    by blast
  then have three: "\<exists>w'. notify A_and_B (world_of ?s) = Some (Returned, w') \<and> subj w' = ?s"
    by (simp add: world_of_def)
  from subject_frame [of 3 ?s A_and_B "world_of ?s" ?d]
  have four: "state (fst (snd (subscribe 3 ?s))) = 8" by simp
  from subject_frame [of 1 ?s A_and_B "world_of ?s" ?d]
  have five: "state (fst (snd (unsubscribe 1 ?s))) = 8" by simp
  from ks one kl two p three four five show ?thesis by blast
qed

text \<open>
  The claim as stated, for every subject, fails: \<open>notify\<close> and \<open>someBusinessLogic\<close>
  run the observers, and the field \<open>state\<close> is public and \<open>unsubscribe\<close> is a method of
  the interface. With an observer that assigns 42 to the state, \<open>notify\<close> changes
  the state from 3 to 42; with an observer that unsubscribes itself,
  \<open>someBusinessLogic\<close> changes the subscriber sequence from \<open>[0, 1]\<close> to \<open>[1]\<close>.
\<close>

theorem observer_changes_subject:
  "outcome (notify setter_then_A (world_of \<lparr>state = 3, observers = [0, 1]\<rparr>)) =
     Some (Returned, \<lparr>state = 42, observers = [0, 1]\<rparr>, [0, 1],
       [[Str ''Subject: Notifying observers...'']])
   \<and> outcome (someBusinessLogic unsubscriber_then_A \<lparr>mantissa = 1, scale = 1\<rparr>
        (world_of \<lparr>state = 3, observers = [0, 1]\<rparr>)) =
     Some (Returned, \<lparr>state = 5, observers = [1]\<rparr>, [0],
       [[Str (CHR 0x0A # ''Subject: I'm doing something important.'')],
        [Str ''Subject: My state has just changed to: '', Num 5],
        [Str ''Subject: Notifying observers...''],
        [Str ''Subject: Unsubscribed an observer.'']])"
  by code_simp

end
